theory Spec2Isabelle
  imports Main "HOL-Library.Sublist"
begin

section \<open>The esbuild compiler session of \<^verbatim>\<open>src/Compiler.ts\<close>\<close>

text \<open>
  The class \<^verbatim>\<open>Compiler\<close> keeps one incremental esbuild build per TypeScript project
  (one per \<^verbatim>\<open>tsconfig.json\<close>) and three dictionaries over them. The embedding below
  follows the class member by member. Everything the class calls but does not define
  (the TypeScript config reader, the esbuild service, the builds it returns) answers
  through an environment record; every call made to one of them is written to a trace,
  so that "how often was the service asked to build" is a property of the model.

  Strings are \<^typ>\<open>string\<close>. The dictionaries are maps from file names; their keys are
  paths as the TypeScript config reader produces them, so neither a property inherited
  from \<^verbatim>\<open>Object.prototype\<close> nor a key that is a canonical array index occurs.
\<close>

subsection \<open>Strings: the two \<^verbatim>\<open>replace\<close> calls and \<^verbatim>\<open>path.join\<close>\<close>

text \<open>
  \<^verbatim>\<open>s.replace(pat, rep)\<close> with a string pattern: the leftmost occurrence of \<^verbatim>\<open>pat\<close>
  is replaced, nothing else. (The replacements used in the source hold no \<^verbatim>\<open>$\<close>.)
\<close>

fun str_replace :: "string \<Rightarrow> string \<Rightarrow> string \<Rightarrow> string" where
  "str_replace pat rep [] = (if pat = [] then rep else [])"
| "str_replace pat rep (c # cs) =
     (if prefix pat (c # cs) then rep @ drop (length pat) (c # cs)
      else c # str_replace pat rep cs)"

text \<open>
  The regular expression \<^verbatim>\<open>/.tsx?$/\<close>. Its dot matches any character that is not a
  line terminator; \<^verbatim>\<open>$\<close> (without the \<^verbatim>\<open>m\<close> flag) is the end of the input. So the
  pattern matches at a position exactly when the rest of the string from there is one
  such character followed by \<^verbatim>\<open>ts\<close> or by \<^verbatim>\<open>tsx\<close>.
\<close>

definition line_terminator :: "char \<Rightarrow> bool" where
  "line_terminator c = (c = CHR 0x0A \<or> c = CHR 0x0D)"

definition matches_tsx :: "string \<Rightarrow> bool" where
  "matches_tsx s =
     (case s of [] \<Rightarrow> False
      | c # rest \<Rightarrow> \<not> line_terminator c \<and> (rest = ''ts'' \<or> rest = ''tsx''))"

text \<open>\<^verbatim>\<open>s.replace(/.tsx?$/, ".js")\<close>: the match positions are tried from the left.\<close>

fun replace_tsx :: "string \<Rightarrow> string" where
  "replace_tsx [] = []"
| "replace_tsx (c # cs) = (if matches_tsx (c # cs) then ''.js'' else c # replace_tsx cs)"

text \<open>
  \<^verbatim>\<open>path.join\<close> is Node's, in its POSIX form: the non-empty arguments are joined with
  a slash and the result is normalised. Normalisation walks the segments between
  slashes: an empty segment and \<^verbatim>\<open>.\<close> are dropped, \<^verbatim>\<open>..\<close> removes the segment before
  it (or is kept when the path is relative and there is nothing to remove), a leading
  slash and a trailing slash are kept.
\<close>

fun split_path :: "string \<Rightarrow> string list" where
  "split_path [] = [[]]"
| "split_path (c # cs) =
     (if c = CHR ''/'' then [] # split_path cs
      else (case split_path cs of [] \<Rightarrow> [[c]] | seg # segs \<Rightarrow> (c # seg) # segs))"

fun join_with :: "string \<Rightarrow> string list \<Rightarrow> string" where
  "join_with sep [] = []"
| "join_with sep [x] = x"
| "join_with sep (x # y # ys) = x @ sep @ join_with sep (y # ys)"

fun normalizeString :: "bool \<Rightarrow> string list \<Rightarrow> string list \<Rightarrow> string list" where
  "normalizeString allowAboveRoot res [] = res"
| "normalizeString allowAboveRoot res (seg # segs) =
     (if seg = [] \<or> seg = ''.'' then normalizeString allowAboveRoot res segs
      else if seg = ''..'' then
        (if res \<noteq> [] \<and> last res \<noteq> ''..''
           then normalizeString allowAboveRoot (butlast res) segs
         else if allowAboveRoot
           then normalizeString allowAboveRoot (res @ [''..'']) segs
         else normalizeString allowAboveRoot res segs)
      else normalizeString allowAboveRoot (res @ [seg]) segs)"

definition path_normalize :: "string \<Rightarrow> string" where
  "path_normalize p =
     (if p = [] then ''.''
      else
        let isAbsolute = (hd p = CHR ''/'');
            trailingSeparator = (last p = CHR ''/'');
            q = join_with ''/'' (normalizeString (\<not> isAbsolute) [] (split_path p))
        in if q = [] then (if isAbsolute then ''/'' else if trailingSeparator then ''./'' else ''.'')
           else (if isAbsolute then ''/'' else []) @ q @ (if trailingSeparator then ''/'' else []))"

definition path_join :: "string \<Rightarrow> string \<Rightarrow> string" where
  "path_join a b =
     (let joined = (if a = [] then b else if b = [] then a else a @ ''/'' @ b)
      in if joined = [] then ''.'' else path_normalize joined)"

subsection \<open>The state of a \<^verbatim>\<open>Compiler\<close> and what it talks to\<close>

text \<open>
  A build (\<^verbatim>\<open>BuildIncremental\<close>) is an object; only its identity matters here. The
  service hands out a new object for every successful build, so builds are numbered.
\<close>

type_synonym build = nat

datatype exn = Error string | TypeError string

datatype event =
    FindConfig string
  | ServiceBuild "string list" string
  | BuildRebuild build
  | RebuildDispose build
  | LogError exn
  | LogDebug string

record tsconfig =
  errors :: "string list"
  fileNames :: "string list"

text \<open>
  The environment of one call: \<^verbatim>\<open>process.platform\<close>, \<^verbatim>\<open>ts.findConfigFile\<close>, the pair
  \<^verbatim>\<open>ts.readConfigFile\<close> / \<^verbatim>\<open>ts.parseJsonConfigFileContent\<close>, and whether
  \<^verbatim>\<open>service.build\<close>, \<^verbatim>\<open>build.rebuild()\<close> and \<^verbatim>\<open>build.rebuild.dispose()\<close> fail
  (\<open>Some\<close> the error) or succeed.
\<close>

record env =
  platform_win32 :: bool
  ts_findConfigFile :: "string \<Rightarrow> string option"
  ts_parseConfig :: "string \<Rightarrow> tsconfig"
  service_build :: "string list \<Rightarrow> string \<Rightarrow> exn option"
  build_rebuild :: "build \<Rightarrow> exn option"
  rebuild_dispose :: "build \<Rightarrow> exn option"

text \<open>
  The fields of the class, then the two that belong to the world around it: the number
  of the next build the service creates, and the trace of calls made so far.
\<close>

record compiler =
  workspaceRoot :: string
  workDir :: string
  builds :: "build list"
  fileMap :: "string \<rightharpoonup> build"
  tsConfigMap :: "string \<rightharpoonup> build"
  groupMap :: "string \<rightharpoonup> string list"
  next_build :: build
  trace :: "event list"

definition new_Compiler :: "string \<Rightarrow> string \<Rightarrow> compiler" where
  "new_Compiler root dir =
     \<lparr>workspaceRoot = root, workDir = dir, builds = [], fileMap = Map.empty,
      tsConfigMap = Map.empty, groupMap = Map.empty, next_build = 0, trace = []\<rparr>"

definition emit :: "event list \<Rightarrow> compiler \<Rightarrow> compiler" where
  "emit es s = s\<lparr>trace := trace s @ es\<rparr>"

text \<open>
  Modelled from the spec: \<^verbatim>\<open>log\<close> and \<^verbatim>\<open>time\<close> are imported from \<^verbatim>\<open>./utils\<close>, which
  is not among the sources. The specification calls them the observability channel:
  \<^verbatim>\<open>log.error\<close> and \<^verbatim>\<open>log.debug\<close> report and return, \<^verbatim>\<open>time\<close> runs its argument
  and yields the elapsed time (a duration, which the model does not measure).
\<close>

definition log_error :: "exn \<Rightarrow> compiler \<Rightarrow> compiler" where
  "log_error err s = emit [LogError err] s"

definition log_debug :: "string \<Rightarrow> compiler \<Rightarrow> compiler" where
  "log_debug msg s = emit [LogDebug msg] s"

definition time :: "(compiler \<Rightarrow> (exn + 'a) \<times> compiler) \<Rightarrow> compiler \<Rightarrow> (exn + unit) \<times> compiler" where
  "time run s = (case run s of (Inl err, s') \<Rightarrow> (Inl err, s') | (Inr _, s') \<Rightarrow> (Inr (), s'))"

subsection \<open>The private members\<close>

definition destination :: "compiler \<Rightarrow> string \<Rightarrow> string" where
  "destination s filename =
     path_join (workDir s) (replace_tsx (str_replace (workspaceRoot s) [] filename))"

text \<open>
  \<^verbatim>\<open>reportESBuildErrors\<close>: whatever \<^verbatim>\<open>run\<close> throws is logged and swallowed; the
  result is then \<^verbatim>\<open>undefined\<close>.
\<close>

definition reportESBuildErrors ::
  "(compiler \<Rightarrow> (exn + 'a) \<times> compiler) \<Rightarrow> compiler \<Rightarrow> 'a option \<times> compiler" where
  "reportESBuildErrors run s =
     (case run s of
        (Inr v, s') \<Rightarrow> (Some v, s')
      | (Inl err, s') \<Rightarrow> (None, log_error err s'))"

definition getTSConfig :: "env \<Rightarrow> string \<Rightarrow> exn + (string \<times> tsconfig)" where
  "getTSConfig e filename =
     (case ts_findConfigFile e filename of
        None \<Rightarrow> Inl (Error (''couldnt find tsconfig.json near '' @ filename))
      | Some tsConfigFile \<Rightarrow>
          if tsConfigFile = [] then Inl (Error (''couldnt find tsconfig.json near '' @ filename))
          else
            let tsConfig = ts_parseConfig e tsConfigFile
            in if length (errors tsConfig) > 0
               then Inl (Error (join_with [CHR 0x0A] (errors tsConfig)))
               else Inr (tsConfigFile, tsConfig))"

text \<open>
  The loop at the end of \<^verbatim>\<open>startBuilding\<close>: one pair of entries per file, in order.
  (\<open>names\<close> is the source's local \<^verbatim>\<open>fileNames\<close>.)
\<close>

fun register_files :: "build \<Rightarrow> string list \<Rightarrow> string list \<Rightarrow> compiler \<Rightarrow> compiler" where
  "register_files b names [] s = s"
| "register_files b names (file # files) s =
     register_files b names files
       (s\<lparr>fileMap := (fileMap s)(file \<mapsto> b), groupMap := (groupMap s)(file \<mapsto> names)\<rparr>)"

text \<open>The function handed to \<^verbatim>\<open>reportESBuildErrors\<close> by \<^verbatim>\<open>startBuilding\<close>.\<close>

definition build_project ::
  "env \<Rightarrow> string \<Rightarrow> string list \<Rightarrow> compiler \<Rightarrow> (exn + string list) \<times> compiler" where
  "build_project e tsConfigFile names s =
     (let s1 = emit [ServiceBuild names tsConfigFile] s
      in case service_build e names tsConfigFile of
           Some err \<Rightarrow> (Inl err, s1)
         | None \<Rightarrow>
             let b = next_build s1;
                 s2 = s1\<lparr>next_build := Suc b\<rparr>;
                 s3 = s2\<lparr>tsConfigMap := (tsConfigMap s2)(tsConfigFile \<mapsto> b)\<rparr>;
                 s4 = log_debug ''started build'' s3;
                 s5 = s4\<lparr>builds := builds s4 @ [b]\<rparr>
             in (Inr names, register_files b names names s5))"

definition native_separators :: "string \<Rightarrow> string" where
  "native_separators f = map (\<lambda>c. if c = CHR ''/'' then CHR 0x5C else c) f"

text \<open>
  The branch on \<^verbatim>\<open>process.platform\<close>: the source's local \<^verbatim>\<open>fileNames\<close>, the member
  files of the project in the separator convention of the platform.
\<close>

definition platform_fileNames :: "env \<Rightarrow> tsconfig \<Rightarrow> string list" where
  "platform_fileNames e tsConfig =
     (if platform_win32 e then map native_separators (fileNames tsConfig)
      else fileNames tsConfig)"

definition startBuilding :: "env \<Rightarrow> string \<Rightarrow> compiler \<Rightarrow> (exn + unit) \<times> compiler" where
  "startBuilding e filename s =
     (if fileMap s filename \<noteq> None then (Inr (), s)
      else
        let s1 = emit [FindConfig filename] s
        in case getTSConfig e filename of
             Inl err \<Rightarrow> (Inl err, s1)
           | Inr (tsConfigFile, tsConfig) \<Rightarrow>
               if tsConfigMap s1 tsConfigFile \<noteq> None then (Inr (), s1)
               else
                 let names = platform_fileNames e tsConfig
                 in (Inr (), snd (reportESBuildErrors (build_project e tsConfigFile names) s1)))"

subsection \<open>The public members\<close>

text \<open>
  A disposal that fails is taken to give a rejected promise, and the promises to settle
  in the order of \<^verbatim>\<open>builds\<close>: \<^verbatim>\<open>Promise.all\<close> rejects with the rejection that comes
  first, here the first of the list, and every disposal has been called by then since
  \<^verbatim>\<open>map\<close> calls them one after the other. (Another order of settlement gives the error
  of another failing disposal; a disposal that throws at once gives its own error and
  ends \<^verbatim>\<open>map\<close> before the later disposals are called.) In every case the \<^verbatim>\<open>await\<close>
  throws the error of a disposal that failed, and the three assignments after it are
  not reached.
\<close>

fun first_rejection :: "exn option list \<Rightarrow> exn option" where
  "first_rejection [] = None"
| "first_rejection (None # rs) = first_rejection rs"
| "first_rejection (Some err # rs) = Some err"

definition invalidateBuildSet :: "env \<Rightarrow> compiler \<Rightarrow> (exn + unit) \<times> compiler" where
  "invalidateBuildSet e s =
     (let s1 = emit (map RebuildDispose (builds s)) s
      in case first_rejection (map (rebuild_dispose e) (builds s)) of
           Some err \<Rightarrow> (Inl err, s1)
         | None \<Rightarrow> (Inr (), s1\<lparr>builds := [], fileMap := Map.empty, tsConfigMap := Map.empty\<rparr>))"

definition compile :: "env \<Rightarrow> string \<Rightarrow> compiler \<Rightarrow> (exn + string) \<times> compiler" where
  "compile e filename s =
     (case startBuilding e filename s of
        (Inl err, s') \<Rightarrow> (Inl err, s')
      | (Inr _, s') \<Rightarrow> (Inr (destination s' filename), s'))"

text \<open>
  \<^verbatim>\<open>Object.fromEntries\<close>: the entries are set one after the other. Setting a key the
  object has already keeps its place and overwrites its value; a new key goes last.
  The object is the list of its own properties in iteration order.
\<close>

fun obj_set :: "(string \<times> 'v) list \<Rightarrow> string \<Rightarrow> 'v \<Rightarrow> (string \<times> 'v) list" where
  "obj_set [] k v = [(k, v)]"
| "obj_set ((k', v') # ps) k v = (if k' = k then (k, v) # ps else (k', v') # obj_set ps k v)"

fun fromEntries_onto :: "(string \<times> 'v) list \<Rightarrow> (string \<times> 'v) list \<Rightarrow> (string \<times> 'v) list" where
  "fromEntries_onto obj [] = obj"
| "fromEntries_onto obj ((k, v) # es) = fromEntries_onto (obj_set obj k v) es"

definition Object_fromEntries :: "(string \<times> 'v) list \<Rightarrow> (string \<times> 'v) list" where
  "Object_fromEntries es = fromEntries_onto [] es"

text \<open>\<^verbatim>\<open>files.map\<close> on \<^verbatim>\<open>undefined\<close> is a \<^verbatim>\<open>TypeError\<close>.\<close>

definition fileGroup :: "compiler \<Rightarrow> string \<Rightarrow> exn + (string \<times> string) list" where
  "fileGroup s filename =
     (case groupMap s filename of
        None \<Rightarrow> Inl (TypeError ''Cannot read properties of undefined'')
      | Some files \<Rightarrow> Inr (Object_fromEntries (map (\<lambda>file. (file, destination s file)) files)))"

text \<open>
  \<^verbatim>\<open>rebuild\<close>: one wrapped \<^verbatim>\<open>build.rebuild()\<close> per build, in the order of \<^verbatim>\<open>builds\<close>.
  The promises settle in no fixed order; the trace lists each build's events together.
\<close>

definition rebuild_one :: "env \<Rightarrow> build \<Rightarrow> compiler \<Rightarrow> (exn + build) \<times> compiler" where
  "rebuild_one e b s =
     (case build_rebuild e b of
        Some err \<Rightarrow> (Inl err, emit [BuildRebuild b] s)
      | None \<Rightarrow> (Inr b, emit [BuildRebuild b] s))"

fun rebuild_all :: "env \<Rightarrow> build list \<Rightarrow> compiler \<Rightarrow> (exn + unit) \<times> compiler" where
  "rebuild_all e [] s = (Inr (), s)"
| "rebuild_all e (b # bs) s = rebuild_all e bs (snd (reportESBuildErrors (rebuild_one e b) s))"

definition rebuild :: "env \<Rightarrow> compiler \<Rightarrow> (exn + unit) \<times> compiler" where
  "rebuild e s =
     (case time (rebuild_all e (builds s)) s of
        (Inl err, s') \<Rightarrow> (Inl err, s')
      | (Inr _, s') \<Rightarrow> (Inr (), log_debug ''rebuild'' s'))"

subsection \<open>Notions the properties are stated with\<close>

text \<open>The registry invariant of the data model, and its first half alone.\<close>

definition group_membership :: "compiler \<Rightarrow> bool" where
  "group_membership s = (\<forall>f G. groupMap s f = Some G \<longrightarrow> f \<in> set G)"

definition registry_invariant :: "compiler \<Rightarrow> bool" where
  "registry_invariant s =
     (\<forall>f G. groupMap s f = Some G \<longrightarrow>
        f \<in> set G \<and> (\<forall>g\<in>set G. fileMap s g \<noteq> None \<and> fileMap s g = fileMap s f))"

text \<open>The states a session can be in: any sequence of the three operations.\<close>

inductive reachable :: "compiler \<Rightarrow> bool" where
  reachable_new: "reachable (new_Compiler root dir)"
| reachable_compile: "reachable s \<Longrightarrow> reachable (snd (compile e filename s))"
| reachable_rebuild: "reachable s \<Longrightarrow> reachable (snd (rebuild e s))"
| reachable_invalidate: "reachable s \<Longrightarrow> reachable (snd (invalidateBuildSet e s))"

text \<open>
  A call of \<^verbatim>\<open>compile\<close> keeps projects apart when the project it is about to build
  (the file is unknown and so is its \<^verbatim>\<open>tsconfig.json\<close>) has no member file that
  already belongs to a build.
\<close>

definition keeps_apart :: "env \<Rightarrow> string \<Rightarrow> compiler \<Rightarrow> bool" where
  "keeps_apart e filename s =
     (case getTSConfig e filename of
        Inl err \<Rightarrow> True
      | Inr (tsConfigFile, tsConfig) \<Rightarrow>
          fileMap s filename = None \<and> tsConfigMap s tsConfigFile = None \<longrightarrow>
            (\<forall>g\<in>set (platform_fileNames e tsConfig). fileMap s g = None))"

text \<open>The states reached without \<^verbatim>\<open>invalidateBuildSet\<close> and with projects kept apart.\<close>

inductive reachable_apart :: "compiler \<Rightarrow> bool" where
  apart_new: "reachable_apart (new_Compiler root dir)"
| apart_compile:
    "reachable_apart s \<Longrightarrow> keeps_apart e filename s \<Longrightarrow>
       reachable_apart (snd (compile e filename s))"
| apart_rebuild: "reachable_apart s \<Longrightarrow> reachable_apart (snd (rebuild e s))"

text \<open>A sequence of \<^verbatim>\<open>compile\<close> calls, each awaited before the next, each in its environment.\<close>

fun compile_all :: "(env \<times> string) list \<Rightarrow> compiler \<Rightarrow> compiler" where
  "compile_all [] s = s"
| "compile_all ((e, filename) # calls) s = compile_all calls (snd (compile e filename s))"

text \<open>The \<^verbatim>\<open>service.build\<close> calls of a trace that were made for one \<^verbatim>\<open>tsconfig.json\<close>.\<close>

fun is_build_of :: "string \<Rightarrow> event \<Rightarrow> bool" where
  "is_build_of tsConfigFile (ServiceBuild names c) = (c = tsConfigFile)"
| "is_build_of tsConfigFile ev = False"

definition build_calls :: "string \<Rightarrow> compiler \<Rightarrow> nat" where
  "build_calls tsConfigFile s = length (filter (is_build_of tsConfigFile) (trace s))"

text \<open>The builds in \<^verbatim>\<open>builds\<close> that are registered for one \<^verbatim>\<open>tsconfig.json\<close>.\<close>

definition live_builds :: "string \<Rightarrow> compiler \<Rightarrow> build list" where
  "live_builds tsConfigFile s = filter (\<lambda>b. tsConfigMap s tsConfigFile = Some b) (builds s)"

text \<open>The events a call added to the trace.\<close>

definition events_since :: "compiler \<Rightarrow> compiler \<Rightarrow> event list" where
  "events_since s s' = drop (length (trace s)) (trace s')"

text \<open>The members of a list in the order of their first occurrence.\<close>

primrec first_occurrences :: "'a list \<Rightarrow> 'a list" where
  "first_occurrences [] = []"
| "first_occurrences (x # xs) = x # filter (\<lambda>y. y \<noteq> x) (first_occurrences xs)"

subsection \<open>Environments of the examples\<close>

text \<open>One project under \<^verbatim>\<open>/root\<close> with two files; every external call succeeds.\<close>

definition env_root :: env where
  "env_root =
     \<lparr>platform_win32 = False,
      ts_findConfigFile = (\<lambda>f. Some ''/root/tsconfig.json''),
      ts_parseConfig = (\<lambda>c. \<lparr>errors = [], fileNames = [''/root/src/a.ts'', ''/root/src/b.tsx'']\<rparr>),
      service_build = (\<lambda>names c. None),
      build_rebuild = (\<lambda>b. None),
      rebuild_dispose = (\<lambda>b. None)\<rparr>"

text \<open>The same project, with a service whose builds fail and builds that refuse disposal.\<close>

definition env_failing :: env where
  "env_failing =
     env_root\<lparr>service_build := (\<lambda>names c. Some (Error ''build failed'')),
              rebuild_dispose := (\<lambda>b. Some (Error ''dispose failed''))\<rparr>"

text \<open>No \<^verbatim>\<open>tsconfig.json\<close> anywhere.\<close>

definition env_none :: env where
  "env_none = env_root\<lparr>ts_findConfigFile := (\<lambda>f. None)\<rparr>"

text \<open>
  A project under \<^verbatim>\<open>/root\<close> whose member list reaches into \<^verbatim>\<open>/root/pkg\<close>, and a second
  project under \<^verbatim>\<open>/root/pkg\<close> with a \<^verbatim>\<open>tsconfig.json\<close> of its own.
\<close>

definition env_nested :: env where
  "env_nested =
     \<lparr>platform_win32 = False,
      ts_findConfigFile =
        (\<lambda>f. if prefix ''/root/pkg/'' f then Some ''/root/pkg/tsconfig.json''
             else Some ''/root/tsconfig.json''),
      ts_parseConfig =
        (\<lambda>c. if c = ''/root/pkg/tsconfig.json''
             then \<lparr>errors = [], fileNames = [''/root/pkg/b.ts'', ''/root/pkg/c.ts'']\<rparr>
             else \<lparr>errors = [], fileNames = [''/root/a.ts'', ''/root/pkg/b.ts'']\<rparr>),
      service_build = (\<lambda>names c. None),
      build_rebuild = (\<lambda>b. None),
      rebuild_dispose = (\<lambda>b. None)\<rparr>"

text \<open>
  Three projects \<^verbatim>\<open>/a\<close>, \<^verbatim>\<open>/b\<close> and \<^verbatim>\<open>/c\<close> of one file each; the build created second
  fails to rebuild.
\<close>

definition env_three :: env where
  "env_three =
     \<lparr>platform_win32 = False,
      ts_findConfigFile = (\<lambda>f. Some (take 2 f @ ''/tsconfig.json'')),
      ts_parseConfig = (\<lambda>c. \<lparr>errors = [], fileNames = [take 2 c @ ''/index.ts'']\<rparr>),
      service_build = (\<lambda>names c. None),
      build_rebuild = (\<lambda>b. if b = 1 then Some (Error ''rebuild failed'') else None),
      rebuild_dispose = (\<lambda>b. None)\<rparr>"

section \<open>Properties\<close>

subsection \<open>The two replacements\<close>

lemma str_replace_prefix: "str_replace pat [] (pat @ rest) = rest"
proof (cases "pat @ rest")
  case Nil
  then show ?thesis by simp
next
  case (Cons a list)
  have "prefix pat (a # list)"
    unfolding Cons [symmetric] by simp
  then have "str_replace pat [] (a # list) = drop (length pat) (a # list)"
    by simp
  also have "\<dots> = rest"
    unfolding Cons [symmetric] by simp
  finally show ?thesis
    unfolding Cons [symmetric] .
qed

lemma replace_tsx_tail_ts:
  "\<not> line_terminator c \<Longrightarrow> replace_tsx (p @ c # ''ts'') = p @ ''.js''"
  by (induction p) (auto simp: matches_tsx_def)

lemma replace_tsx_tail_tsx:
  "\<not> line_terminator c \<Longrightarrow> replace_tsx (p @ c # ''tsx'') = p @ ''.js''"
  by (induction p) (auto simp: matches_tsx_def)

lemma dot_not_terminator: "\<not> line_terminator CHR ''.''"
  by (simp add: line_terminator_def)

lemma destination_ts:
  "destination s (workspaceRoot s @ rel @ ''.ts'') = path_join (workDir s) (rel @ ''.js'')"
  using replace_tsx_tail_ts [OF dot_not_terminator, of rel]
  by (simp add: destination_def str_replace_prefix)

lemma destination_tsx:
  "destination s (workspaceRoot s @ rel @ ''.tsx'') = path_join (workDir s) (rel @ ''.js'')"
  using replace_tsx_tail_tsx [OF dot_not_terminator, of rel]
  by (simp add: destination_def str_replace_prefix)

lemma path_join_out_a: "path_join ''/out'' ''/src/a.js'' = ''/out/src/a.js''"
  by code_simp

lemma path_join_out_b: "path_join ''/out'' ''/src/b.js'' = ''/out/src/b.js''"
  by code_simp

subsection \<open>What \<^verbatim>\<open>startBuilding\<close> does, case by case\<close>

lemma register_files_fileMap:
  "fileMap (register_files b names files s) = (\<lambda>f. if f \<in> set files then Some b else fileMap s f)"
  by (induction files arbitrary: s) (auto simp: fun_eq_iff)

lemma register_files_groupMap:
  "groupMap (register_files b names files s) = (\<lambda>f. if f \<in> set files then Some names else groupMap s f)"
  by (induction files arbitrary: s) (auto simp: fun_eq_iff)

lemma register_files_rest:
  "builds (register_files b names files s) = builds s"
  "tsConfigMap (register_files b names files s) = tsConfigMap s"
  "next_build (register_files b names files s) = next_build s"
  "trace (register_files b names files s) = trace s"
  "workspaceRoot (register_files b names files s) = workspaceRoot s"
  "workDir (register_files b names files s) = workDir s"
  by (induction files arbitrary: s) auto

lemma register_files_eq:
  "register_files b names files s =
     s\<lparr>fileMap := (\<lambda>f. if f \<in> set files then Some b else fileMap s f),
       groupMap := (\<lambda>f. if f \<in> set files then Some names else groupMap s f)\<rparr>"
  by (rule compiler.equality) (simp_all add: register_files_fileMap register_files_groupMap register_files_rest)

lemma emit_emit: "emit es (emit es' s) = emit (es' @ es) s"
  by (simp add: emit_def)

lemma emit_fields:
  "workspaceRoot (emit es s) = workspaceRoot s"
  "workDir (emit es s) = workDir s"
  "builds (emit es s) = builds s"
  "fileMap (emit es s) = fileMap s"
  "tsConfigMap (emit es s) = tsConfigMap s"
  "groupMap (emit es s) = groupMap s"
  "next_build (emit es s) = next_build s"
  "trace (emit es s) = trace s @ es"
  by (simp_all add: emit_def)

lemma startBuilding_known:
  "fileMap s f \<noteq> None \<Longrightarrow> startBuilding e f s = (Inr (), s)"
  by (simp add: startBuilding_def)

lemma startBuilding_error:
  "fileMap s f = None \<Longrightarrow> getTSConfig e f = Inl err \<Longrightarrow>
     startBuilding e f s = (Inl err, emit [FindConfig f] s)"
  by (simp add: startBuilding_def)

lemma startBuilding_registered:
  "fileMap s f = None \<Longrightarrow> getTSConfig e f = Inr (m, c) \<Longrightarrow> tsConfigMap s m \<noteq> None \<Longrightarrow>
     startBuilding e f s = (Inr (), emit [FindConfig f] s)"
  by (simp add: startBuilding_def emit_fields)

lemma startBuilding_failure:
  "fileMap s f = None \<Longrightarrow> getTSConfig e f = Inr (m, c) \<Longrightarrow> tsConfigMap s m = None \<Longrightarrow>
   service_build e (platform_fileNames e c) m = Some err \<Longrightarrow>
     startBuilding e f s =
       (Inr (), emit [FindConfig f, ServiceBuild (platform_fileNames e c) m, LogError err] s)"
  by (simp add: startBuilding_def emit_fields reportESBuildErrors_def build_project_def
      log_error_def emit_emit)

lemma startBuilding_success:
  assumes "fileMap s f = None" "getTSConfig e f = Inr (m, c)" "tsConfigMap s m = None"
    "service_build e (platform_fileNames e c) m = None"
  shows "startBuilding e f s =
    (Inr (),
     s\<lparr>builds := builds s @ [next_build s],
       fileMap := (\<lambda>g. if g \<in> set (platform_fileNames e c) then Some (next_build s) else fileMap s g),
       tsConfigMap := (tsConfigMap s)(m \<mapsto> next_build s),
       groupMap := (\<lambda>g. if g \<in> set (platform_fileNames e c) then Some (platform_fileNames e c) else groupMap s g),
       next_build := Suc (next_build s),
       trace := trace s @ [FindConfig f, ServiceBuild (platform_fileNames e c) m, LogDebug ''started build'']\<rparr>)"
  using assms
  by (simp add: startBuilding_def emit_def reportESBuildErrors_def build_project_def
      log_debug_def register_files_eq Let_def cong: if_cong)

lemma startBuilding_cases [case_names known error registered failure success]:
  obtains
    "fileMap s f \<noteq> None" "startBuilding e f s = (Inr (), s)"
  | err where "fileMap s f = None" "getTSConfig e f = Inl err"
      "startBuilding e f s = (Inl err, emit [FindConfig f] s)"
  | m c where "fileMap s f = None" "getTSConfig e f = Inr (m, c)" "tsConfigMap s m \<noteq> None"
      "startBuilding e f s = (Inr (), emit [FindConfig f] s)"
  | m c err where "fileMap s f = None" "getTSConfig e f = Inr (m, c)" "tsConfigMap s m = None"
      "service_build e (platform_fileNames e c) m = Some err"
      "startBuilding e f s =
         (Inr (), emit [FindConfig f, ServiceBuild (platform_fileNames e c) m, LogError err] s)"
  | m c where "fileMap s f = None" "getTSConfig e f = Inr (m, c)" "tsConfigMap s m = None"
      "service_build e (platform_fileNames e c) m = None"
      "startBuilding e f s =
        (Inr (),
         s\<lparr>builds := builds s @ [next_build s],
           fileMap := (\<lambda>g. if g \<in> set (platform_fileNames e c) then Some (next_build s) else fileMap s g),
           tsConfigMap := (tsConfigMap s)(m \<mapsto> next_build s),
           groupMap := (\<lambda>g. if g \<in> set (platform_fileNames e c) then Some (platform_fileNames e c) else groupMap s g),
           next_build := Suc (next_build s),
           trace := trace s @ [FindConfig f, ServiceBuild (platform_fileNames e c) m, LogDebug ''started build'']\<rparr>)"
proof (cases "fileMap s f = None")
  case False
  then show ?thesis
    by (intro that(1) startBuilding_known)
next
  case unknown: True
  show ?thesis
  proof (cases "getTSConfig e f")
    case (Inl err)
    then show ?thesis
      by (intro that(2) [OF unknown] startBuilding_error [OF unknown])
  next
    case (Inr mc)
    obtain m c where "mc = (m, c)"
      by (cases mc)
    with Inr have g: "getTSConfig e f = Inr (m, c)"
      by simp
    show ?thesis
    proof (cases "tsConfigMap s m = None")
      case False
      then show ?thesis
        by (intro that(3) [OF unknown g] startBuilding_registered [OF unknown g])
    next
      case fresh: True
      show ?thesis
      proof (cases "service_build e (platform_fileNames e c) m")
        case None
        then show ?thesis
          by (intro that(5) [OF unknown g fresh] startBuilding_success [OF unknown g fresh])
      next
        case (Some err)
        then show ?thesis
          by (intro that(4) [OF unknown g fresh] startBuilding_failure [OF unknown g fresh])
      qed
    qed
  qed
qed

lemma startBuilding_roots:
  "workspaceRoot (snd (startBuilding e f s)) = workspaceRoot s \<and>
   workDir (snd (startBuilding e f s)) = workDir s"
  by (rule startBuilding_cases [of s f e]) (simp_all add: emit_fields)

lemma compile_returns_destination:
  "fst (compile e f s) = Inr p \<Longrightarrow> p = destination s f"
proof -
  assume r: "fst (compile e f s) = Inr p"
  obtain x s' where sb: "startBuilding e f s = (x, s')"
    by (cases "startBuilding e f s")
  have "destination s' f = destination s f"
    using startBuilding_roots [of e f s] sb by (simp add: destination_def)
  with r sb show ?thesis
    by (cases x) (simp_all add: compile_def)
qed

subsection \<open>Output paths\<close>

text \<open>
  Claim C7. With \<^verbatim>\<open>workspaceRoot = "/root"\<close> and \<^verbatim>\<open>workDir = "/out"\<close>, whenever
  \<^verbatim>\<open>compile\<close> returns for \<^verbatim>\<open>/root/src/a.ts\<close> it returns \<^verbatim>\<open>/out/src/a.js\<close>, and for
  \<^verbatim>\<open>/root/src/b.tsx\<close> it returns \<^verbatim>\<open>/out/src/b.js\<close>. In general the path \<^verbatim>\<open>compile\<close>
  returns is \<^verbatim>\<open>destination\<close> of the file, and for a file under the workspace root with
  the extension \<^verbatim>\<open>.ts\<close> or \<^verbatim>\<open>.tsx\<close> that is \<^verbatim>\<open>workDir\<close> joined with the path relative
  to the workspace root, the extension rewritten to \<^verbatim>\<open>.js\<close>.
\<close>

theorem path_mapping:
  "(workspaceRoot s = ''/root'' \<and> workDir s = ''/out'' \<longrightarrow>
      (\<forall>p. fst (compile e ''/root/src/a.ts'' s) = Inr p \<longrightarrow> p = ''/out/src/a.js'') \<and>
      (\<forall>p. fst (compile e ''/root/src/b.tsx'' s) = Inr p \<longrightarrow> p = ''/out/src/b.js''))
   \<and> (\<forall>p. fst (compile e filename s) = Inr p \<longrightarrow> p = destination s filename)
   \<and> destination s (workspaceRoot s @ rel @ ''.ts'') = path_join (workDir s) (rel @ ''.js'')
   \<and> destination s (workspaceRoot s @ rel @ ''.tsx'') = path_join (workDir s) (rel @ ''.js'')"
proof (intro conjI impI allI)
  fix p
  assume roots: "workspaceRoot s = ''/root'' \<and> workDir s = ''/out''"
    and r: "fst (compile e ''/root/src/a.ts'' s) = Inr p"
  have "destination s (''/root'' @ ''/src/a'' @ ''.ts'') = path_join ''/out'' (''/src/a'' @ ''.js'')"
    using destination_ts [of s "''/src/a''"] roots by simp
  then have "destination s ''/root/src/a.ts'' = ''/out/src/a.js''"
    using path_join_out_a by simp
  with compile_returns_destination [OF r] show "p = ''/out/src/a.js''"
    by simp
next
  fix p
  assume roots: "workspaceRoot s = ''/root'' \<and> workDir s = ''/out''"
    and r: "fst (compile e ''/root/src/b.tsx'' s) = Inr p"
  have "destination s (''/root'' @ ''/src/b'' @ ''.tsx'') = path_join ''/out'' (''/src/b'' @ ''.js'')"
    using destination_tsx [of s "''/src/b''"] roots by simp
  then have "destination s ''/root/src/b.tsx'' = ''/out/src/b.js''"
    using path_join_out_b by simp
  with compile_returns_destination [OF r] show "p = ''/out/src/b.js''"
    by simp
next
  fix p
  assume "fst (compile e filename s) = Inr p"
  then show "p = destination s filename"
    by (rule compile_returns_destination)
next
  show "destination s (workspaceRoot s @ rel @ ''.ts'') = path_join (workDir s) (rel @ ''.js'')"
    by (rule destination_ts)
next
  show "destination s (workspaceRoot s @ rel @ ''.tsx'') = path_join (workDir s) (rel @ ''.js'')"
    by (rule destination_tsx)
qed

text \<open>The two paths of the claim are returned when the project of \<^verbatim>\<open>/root\<close> resolves.\<close>

theorem path_mapping_witness:
  "fst (compile env_root ''/root/src/a.ts'' (new_Compiler ''/root'' ''/out'')) = Inr ''/out/src/a.js'' \<and>
   fst (compile env_root ''/root/src/b.tsx'' (new_Compiler ''/root'' ''/out'')) = Inr ''/out/src/b.js''"
proof -
  let ?s = "new_Compiler ''/root'' ''/out''"
  have roots: "workspaceRoot ?s = ''/root'' \<and> workDir ?s = ''/out''"
    by (simp add: new_Compiler_def)
  have "\<not> isl (fst (compile env_root ''/root/src/a.ts'' ?s))"
    by code_simp
  then obtain p where p: "fst (compile env_root ''/root/src/a.ts'' ?s) = Inr p"
    by (cases "fst (compile env_root ''/root/src/a.ts'' ?s)") auto
  have "\<not> isl (fst (compile env_root ''/root/src/b.tsx'' ?s))"
    by code_simp
  then obtain q where q: "fst (compile env_root ''/root/src/b.tsx'' ?s) = Inr q"
    by (cases "fst (compile env_root ''/root/src/b.tsx'' ?s)") auto
  have "p = ''/out/src/a.js''" "q = ''/out/src/b.js''"
    using path_mapping [of ?s env_root] roots p q by blast+
  with p q show ?thesis
    by simp
qed

subsection \<open>\<^verbatim>\<open>compile\<close>, case by case\<close>

lemma emit_nothing: "emit [] s = s"
  by (simp add: emit_def)

lemma destination_emit: "destination (emit es s) f = destination s f"
  by (simp add: destination_def emit_fields)

lemma events_since_emit: "events_since s (emit es s) = es"
  by (simp add: events_since_def emit_fields)

lemma compile_known:
  "fileMap s f \<noteq> None \<Longrightarrow> compile e f s = (Inr (destination s f), s)"
  by (simp add: compile_def startBuilding_known)

lemma compile_error:
  "fileMap s f = None \<Longrightarrow> getTSConfig e f = Inl err \<Longrightarrow>
     compile e f s = (Inl err, emit [FindConfig f] s)"
  by (simp add: compile_def startBuilding_error)

lemma compile_registered:
  "fileMap s f = None \<Longrightarrow> getTSConfig e f = Inr (m, c) \<Longrightarrow> tsConfigMap s m \<noteq> None \<Longrightarrow>
     compile e f s = (Inr (destination s f), emit [FindConfig f] s)"
  by (simp add: compile_def startBuilding_registered destination_emit)

lemma compile_failure:
  "fileMap s f = None \<Longrightarrow> getTSConfig e f = Inr (m, c) \<Longrightarrow> tsConfigMap s m = None \<Longrightarrow>
   service_build e (platform_fileNames e c) m = Some err \<Longrightarrow>
     compile e f s =
       (Inr (destination s f),
        emit [FindConfig f, ServiceBuild (platform_fileNames e c) m, LogError err] s)"
  by (simp add: compile_def startBuilding_failure destination_emit)

lemma compile_state: "snd (compile e f s) = snd (startBuilding e f s)"
  by (cases "startBuilding e f s") (simp add: compile_def split: sum.split)

lemma compile_attempts:
  assumes "fileMap s f = None" "getTSConfig e f = Inr (m, c)" "tsConfigMap s m = None"
  shows "take 2 (events_since s (snd (compile e f s))) =
           [FindConfig f, ServiceBuild (platform_fileNames e c) m]"
proof (cases "service_build e (platform_fileNames e c) m")
  case None
  show ?thesis
    unfolding compile_state startBuilding_success [OF assms None]
    by (simp add: events_since_def)
next
  case (Some err)
  show ?thesis
    unfolding compile_state startBuilding_failure [OF assms Some]
    by (simp add: events_since_emit)
qed

text \<open>
  Claim C5. When \<^verbatim>\<open>compile\<close> reaches the service (the file is unknown, its config
  resolves, the \<^verbatim>\<open>tsconfig.json\<close> has no build) and \<^verbatim>\<open>service.build\<close> fails, \<^verbatim>\<open>compile\<close>
  still returns the output path of the file. The error is logged; \<^verbatim>\<open>builds\<close> and the
  three dictionaries are as before, so the \<^verbatim>\<open>tsconfig.json\<close> stays unregistered, and a
  later \<^verbatim>\<open>compile\<close> of an unknown file of the same project asks the service again.
\<close>

theorem build_failure_is_swallowed:
  assumes "fileMap s file = None"
    and "getTSConfig e file = Inr (tsConfigFile, tsConfig)"
    and "tsConfigMap s tsConfigFile = None"
    and "service_build e (platform_fileNames e tsConfig) tsConfigFile = Some err"
  shows "fst (compile e file s) = Inr (destination s file) \<and>
    snd (compile e file s) =
      emit [FindConfig file, ServiceBuild (platform_fileNames e tsConfig) tsConfigFile, LogError err] s \<and>
    builds (snd (compile e file s)) = builds s \<and>
    fileMap (snd (compile e file s)) = fileMap s \<and>
    tsConfigMap (snd (compile e file s)) = tsConfigMap s \<and>
    groupMap (snd (compile e file s)) = groupMap s \<and>
    (\<forall>e' file' tsConfig'.
       fileMap s file' = None \<and> getTSConfig e' file' = Inr (tsConfigFile, tsConfig') \<longrightarrow>
       take 2 (events_since (snd (compile e file s)) (snd (compile e' file' (snd (compile e file s))))) =
         [FindConfig file', ServiceBuild (platform_fileNames e' tsConfig') tsConfigFile])"
proof -
  let ?s' = "emit [FindConfig file, ServiceBuild (platform_fileNames e tsConfig) tsConfigFile, LogError err] s"
  have c: "compile e file s = (Inr (destination s file), ?s')"
    using assms by (rule compile_failure)
  have "take 2 (events_since ?s' (snd (compile e' file' ?s'))) =
          [FindConfig file', ServiceBuild (platform_fileNames e' tsConfig') tsConfigFile]"
    if "fileMap s file' = None" "getTSConfig e' file' = Inr (tsConfigFile, tsConfig')"
    for e' file' tsConfig'
    using that assms(3) by (intro compile_attempts) (simp_all add: emit_fields)
  then show ?thesis
    by (simp add: c emit_fields)
qed

text \<open>A failing service, on the empty session.\<close>

theorem build_failure_is_swallowed_witness:
  "fst (compile env_failing ''/root/src/a.ts'' (new_Compiler ''/root'' ''/out'')) = Inr ''/out/src/a.js'' \<and>
   trace (snd (compile env_failing ''/root/src/a.ts'' (new_Compiler ''/root'' ''/out''))) =
     [FindConfig ''/root/src/a.ts'',
      ServiceBuild [''/root/src/a.ts'', ''/root/src/b.tsx''] ''/root/tsconfig.json'',
      LogError (Error ''build failed'')] \<and>
   tsConfigMap (snd (compile env_failing ''/root/src/a.ts'' (new_Compiler ''/root'' ''/out''))) = Map.empty"
proof -
  let ?s = "new_Compiler ''/root'' ''/out''"
  let ?c = "\<lparr>errors = [], fileNames = [''/root/src/a.ts'', ''/root/src/b.tsx'']\<rparr>"
  have h1: "fileMap ?s ''/root/src/a.ts'' = None"
    by (simp add: new_Compiler_def)
  have h2: "getTSConfig env_failing ''/root/src/a.ts'' = Inr (''/root/tsconfig.json'', ?c)"
    by (simp add: getTSConfig_def env_failing_def env_root_def)
  have h3: "tsConfigMap ?s ''/root/tsconfig.json'' = None"
    by (simp add: new_Compiler_def)
  have h4: "service_build env_failing (platform_fileNames env_failing ?c) ''/root/tsconfig.json'' =
      Some (Error ''build failed'')"
    by (simp add: env_failing_def)
  have names: "platform_fileNames env_failing ?c = [''/root/src/a.ts'', ''/root/src/b.tsx'']"
    by (simp add: platform_fileNames_def env_failing_def env_root_def)
  have d: "destination ?s ''/root/src/a.ts'' = ''/out/src/a.js''"
    by code_simp
  from build_failure_is_swallowed [OF h1 h2 h3 h4] show ?thesis
    by (simp add: names d emit_fields) (simp add: new_Compiler_def)
qed

subsection \<open>Resolution errors\<close>

lemma getTSConfig_not_found:
  "ts_findConfigFile e f = None \<Longrightarrow>
     getTSConfig e f = Inl (Error (''couldnt find tsconfig.json near '' @ f))"
  by (simp add: getTSConfig_def)

lemma getTSConfig_diagnostics:
  "ts_findConfigFile e f = Some c \<Longrightarrow> errors (ts_parseConfig e c) \<noteq> [] \<Longrightarrow>
     getTSConfig e f =
       Inl (Error (if c = [] then ''couldnt find tsconfig.json near '' @ f
                   else join_with [CHR 0x0A] (errors (ts_parseConfig e c))))"
  by (simp add: getTSConfig_def)

text \<open>
  Claim C6. For a file that is not in \<^verbatim>\<open>fileMap\<close>: when no \<^verbatim>\<open>tsconfig.json\<close> is found, or
  the one found has diagnostics, \<^verbatim>\<open>getTSConfig\<close> throws; and whatever it throws,
  \<^verbatim>\<open>compile\<close> fails with that same error, having changed nothing but the trace: no
  build is created and no entry is added to any dictionary.
\<close>

theorem resolution_error_propagates:
  assumes "fileMap s file = None"
  shows "(ts_findConfigFile e file = None \<or>
            (\<exists>c. ts_findConfigFile e file = Some c \<and> errors (ts_parseConfig e c) \<noteq> [])
          \<longrightarrow> (\<exists>err. getTSConfig e file = Inl err)) \<and>
    (\<forall>err. getTSConfig e file = Inl err \<longrightarrow>
       fst (compile e file s) = Inl err \<and>
       snd (compile e file s) = emit [FindConfig file] s \<and>
       builds (snd (compile e file s)) = builds s \<and>
       fileMap (snd (compile e file s)) = fileMap s \<and>
       tsConfigMap (snd (compile e file s)) = tsConfigMap s \<and>
       groupMap (snd (compile e file s)) = groupMap s \<and>
       next_build (snd (compile e file s)) = next_build s)"
proof (intro conjI impI allI)
  assume "ts_findConfigFile e file = None \<or>
    (\<exists>c. ts_findConfigFile e file = Some c \<and> errors (ts_parseConfig e c) \<noteq> [])"
  then show "\<exists>err. getTSConfig e file = Inl err"
    using getTSConfig_not_found getTSConfig_diagnostics by blast
next
  fix err
  assume "getTSConfig e file = Inl err"
  then have c: "compile e file s = (Inl err, emit [FindConfig file] s)"
    using assms by (intro compile_error)
  show "fst (compile e file s) = Inl err"
    and "snd (compile e file s) = emit [FindConfig file] s"
    and "builds (snd (compile e file s)) = builds s"
    and "fileMap (snd (compile e file s)) = fileMap s"
    and "tsConfigMap (snd (compile e file s)) = tsConfigMap s"
    and "groupMap (snd (compile e file s)) = groupMap s"
    and "next_build (snd (compile e file s)) = next_build s"
    by (simp_all add: c emit_fields)
qed

text \<open>No \<^verbatim>\<open>tsconfig.json\<close> near the file.\<close>

theorem resolution_error_propagates_witness:
  "compile env_none ''/root/src/a.ts'' (new_Compiler ''/root'' ''/out'') =
     (Inl (Error ''couldnt find tsconfig.json near /root/src/a.ts''),
      emit [FindConfig ''/root/src/a.ts''] (new_Compiler ''/root'' ''/out''))"
proof -
  let ?s = "new_Compiler ''/root'' ''/out''"
  have h: "fileMap ?s ''/root/src/a.ts'' = None"
    by (simp add: new_Compiler_def)
  have n: "ts_findConfigFile env_none ''/root/src/a.ts'' = None"
    by (simp add: env_none_def)
  have g: "getTSConfig env_none ''/root/src/a.ts'' =
      Inl (Error ''couldnt find tsconfig.json near /root/src/a.ts'')"
    using getTSConfig_not_found [OF n] by simp
  from resolution_error_propagates [OF h, of env_none] n g show ?thesis
    by (simp add: prod_eq_iff)
qed

lemma compile_result:
  "fst (compile e f s) =
     (if fileMap s f = None
      then (case getTSConfig e f of Inl err \<Rightarrow> Inl err | Inr mc \<Rightarrow> Inr (destination s f))
      else Inr (destination s f))"
  by (rule startBuilding_cases [of s f e]) (auto simp: compile_def destination_def emit_fields)

lemma compile_all_unregistered:
  "fileMap s f = None \<Longrightarrow> tsConfigMap s m \<noteq> None \<Longrightarrow>
   \<forall>e'\<in>set es. \<exists>c'. getTSConfig e' f = Inr (m, c') \<Longrightarrow>
     compile_all (map (\<lambda>e'. (e', f)) es) s = emit (replicate (length es) (FindConfig f)) s"
proof (induction es arbitrary: s)
  case Nil
  then show ?case
    by (simp add: emit_nothing)
next
  case (Cons e' es)
  from Cons.prems(3) obtain c' where g: "getTSConfig e' f = Inr (m, c')"
    by auto
  have step: "snd (compile e' f s) = emit [FindConfig f] s"
    using compile_registered [OF Cons.prems(1) g Cons.prems(2)] by simp
  have "compile_all (map (\<lambda>e'. (e', f)) es) (emit [FindConfig f] s) =
      emit (replicate (length es) (FindConfig f)) (emit [FindConfig f] s)"
    using Cons.prems by (intro Cons.IH) (simp_all add: emit_fields)
  then show ?case
    by (simp add: step emit_emit)
qed

text \<open>
  Claim C10. A \<^verbatim>\<open>compile\<close> that returns need not register its file. Let the file be
  absent from \<^verbatim>\<open>fileMap\<close> and \<^verbatim>\<open>groupMap\<close>, and let its config resolve. If the member
  list of the project does not contain the file, or the \<^verbatim>\<open>tsconfig.json\<close> has a build
  already, then \<^verbatim>\<open>compile\<close> returns the output path and the file is still absent from
  both dictionaries: \<^verbatim>\<open>fileGroup\<close> of it fails, the next \<^verbatim>\<open>compile\<close> of it resolves the
  config again, and as long as the project has its build, any number of further
  \<^verbatim>\<open>compile\<close> calls of the file do that and nothing else (no second build is started).
\<close>

theorem compile_may_leave_file_unregistered:
  assumes "fileMap s file = None" and "groupMap s file = None"
    and "getTSConfig e file = Inr (tsConfigFile, tsConfig)"
    and "file \<notin> set (platform_fileNames e tsConfig) \<or> tsConfigMap s tsConfigFile \<noteq> None"
  shows "fst (compile e file s) = Inr (destination s file) \<and>
    fileMap (snd (compile e file s)) file = None \<and>
    groupMap (snd (compile e file s)) file = None \<and>
    (\<exists>err. fileGroup (snd (compile e file s)) file = Inl err) \<and>
    (\<forall>e'. take 1 (events_since (snd (compile e file s))
                    (snd (compile e' file (snd (compile e file s))))) = [FindConfig file]) \<and>
    (\<forall>es. tsConfigMap (snd (compile e file s)) tsConfigFile \<noteq> None \<and>
          (\<forall>e'\<in>set es. \<exists>c'. getTSConfig e' file = Inr (tsConfigFile, c')) \<longrightarrow>
          compile_all (map (\<lambda>e'. (e', file)) es) (snd (compile e file s)) =
            emit (replicate (length es) (FindConfig file)) (snd (compile e file s)))"
proof -
  let ?s' = "snd (compile e file s)"
  have r: "fst (compile e file s) = Inr (destination s file)"
    using assms(3) by (simp add: compile_result)
  have unreg: "fileMap ?s' file = None \<and> groupMap ?s' file = None"
    unfolding compile_state
    using assms by (rule_tac startBuilding_cases [of s "file" e]) (auto simp: emit_fields)
  have first: "take 1 (events_since ?s' (snd (compile e' file ?s'))) = [FindConfig file]" for e'
    unfolding compile_state [of e' "file"]
    using unreg
    by (rule_tac startBuilding_cases [of ?s' "file" e']) (auto simp: events_since_def emit_fields)
  have later: "compile_all (map (\<lambda>e'. (e', file)) es) ?s' =
      emit (replicate (length es) (FindConfig file)) ?s'"
    if "tsConfigMap ?s' tsConfigFile \<noteq> None"
      "\<forall>e'\<in>set es. \<exists>c'. getTSConfig e' file = Inr (tsConfigFile, c')" for es
    using unreg that by (intro compile_all_unregistered) simp_all
  from r unreg first later show ?thesis
    by (simp add: fileGroup_def)
qed

text \<open>A file under \<^verbatim>\<open>/root\<close> that the member list of the project does not name.\<close>

theorem compile_may_leave_file_unregistered_witness:
  "fst (compile env_nested ''/root/x.ts'' (new_Compiler ''/root'' ''/out'')) = Inr ''/out/x.js'' \<and>
   fileMap (snd (compile env_nested ''/root/x.ts'' (new_Compiler ''/root'' ''/out''))) ''/root/x.ts'' = None \<and>
   groupMap (snd (compile env_nested ''/root/x.ts'' (new_Compiler ''/root'' ''/out''))) ''/root/x.ts'' = None \<and>
   compile_all [(env_nested, ''/root/x.ts''), (env_nested, ''/root/x.ts'')]
       (snd (compile env_nested ''/root/x.ts'' (new_Compiler ''/root'' ''/out''))) =
     emit [FindConfig ''/root/x.ts'', FindConfig ''/root/x.ts'']
       (snd (compile env_nested ''/root/x.ts'' (new_Compiler ''/root'' ''/out'')))"
proof -
  let ?s = "new_Compiler ''/root'' ''/out''"
  let ?c = "\<lparr>errors = [], fileNames = [''/root/a.ts'', ''/root/pkg/b.ts'']\<rparr>"
  let ?s' = "snd (compile env_nested ''/root/x.ts'' ?s)"
  have h1: "fileMap ?s ''/root/x.ts'' = None" and h2: "groupMap ?s ''/root/x.ts'' = None"
    by (simp_all add: new_Compiler_def)
  have h3: "getTSConfig env_nested ''/root/x.ts'' = Inr (''/root/tsconfig.json'', ?c)"
    by (simp add: getTSConfig_def env_nested_def)
  have h4: "''/root/x.ts'' \<notin> set (platform_fileNames env_nested ?c) \<or>
      tsConfigMap ?s ''/root/tsconfig.json'' \<noteq> None"
    by (simp add: platform_fileNames_def env_nested_def)
  have live: "tsConfigMap ?s' ''/root/tsconfig.json'' \<noteq> None"
    by code_simp
  have d: "destination ?s ''/root/x.ts'' = ''/out/x.js''"
    by code_simp
  have again: "\<forall>e'\<in>set [env_nested, env_nested].
      \<exists>c'. getTSConfig e' ''/root/x.ts'' = Inr (''/root/tsconfig.json'', c')"
    using h3 by simp
  from compile_may_leave_file_unregistered [OF h1 h2 h3 h4] have
    "fst (compile env_nested ''/root/x.ts'' ?s) = Inr (destination ?s ''/root/x.ts'')"
    "fileMap ?s' ''/root/x.ts'' = None"
    "groupMap ?s' ''/root/x.ts'' = None"
    "compile_all (map (\<lambda>e'. (e', ''/root/x.ts'')) [env_nested, env_nested]) ?s' =
       emit (replicate (length [env_nested, env_nested]) (FindConfig ''/root/x.ts'')) ?s'"
    using live again by blast+
  then show ?thesis
    by (simp add: d)
qed

subsection \<open>\<^verbatim>\<open>rebuild\<close>\<close>

lemma rebuild_all_eq:
  "rebuild_all e bs s =
     (Inr (),
      emit (concat (map (\<lambda>b. BuildRebuild b #
               (case build_rebuild e b of None \<Rightarrow> [] | Some err \<Rightarrow> [LogError err])) bs)) s)"
proof (induction bs arbitrary: s)
  case Nil
  show ?case
    by (simp add: emit_nothing)
next
  case (Cons b bs)
  show ?case
    by (cases "build_rebuild e b")
      (simp_all add: Cons.IH reportESBuildErrors_def rebuild_one_def log_error_def emit_emit)
qed

lemma rebuild_eq:
  "rebuild e s =
     (Inr (),
      emit (concat (map (\<lambda>b. BuildRebuild b #
               (case build_rebuild e b of None \<Rightarrow> [] | Some err \<Rightarrow> [LogError err])) (builds s))
            @ [LogDebug ''rebuild'']) s)"
  by (simp add: rebuild_def time_def rebuild_all_eq log_debug_def emit_emit)

lemma rebuilds_of_events:
  "[b'. BuildRebuild b' \<leftarrow> concat (map (\<lambda>b. BuildRebuild b #
       (case build_rebuild e b of None \<Rightarrow> [] | Some err \<Rightarrow> [LogError err])) bs)] = bs"
  by (induction bs) (auto split: option.split)

lemma errors_of_events:
  "[err'. LogError err' \<leftarrow> concat (map (\<lambda>b. BuildRebuild b #
       (case build_rebuild e b of None \<Rightarrow> [] | Some err \<Rightarrow> [LogError err])) bs)] =
   [err. b \<leftarrow> bs, Some err \<leftarrow> [build_rebuild e b]]"
  by (induction bs) (auto split: option.split)

text \<open>
  Claim C4. \<^verbatim>\<open>rebuild\<close> always returns normally. It calls \<^verbatim>\<open>rebuild()\<close> on every build in
  \<^verbatim>\<open>builds\<close>, once each, whichever of them fail; the errors it logs are exactly those of
  the failing builds; and it changes nothing but the trace.
\<close>

theorem rebuild_isolates_failures:
  "fst (rebuild e s) = Inr () \<and>
   [b. BuildRebuild b \<leftarrow> events_since s (snd (rebuild e s))] = builds s \<and>
   [err. LogError err \<leftarrow> events_since s (snd (rebuild e s))] =
     [err. b \<leftarrow> builds s, Some err \<leftarrow> [build_rebuild e b]] \<and>
   builds (snd (rebuild e s)) = builds s \<and>
   fileMap (snd (rebuild e s)) = fileMap s \<and>
   tsConfigMap (snd (rebuild e s)) = tsConfigMap s \<and>
   groupMap (snd (rebuild e s)) = groupMap s"
  by (simp add: rebuild_eq events_since_emit emit_fields rebuilds_of_events errors_of_events)

text \<open>Three builds, the second of which fails: all three are called, one error is logged.\<close>

theorem rebuild_isolates_failures_witness:
  "fst (rebuild env_three
     (compile_all [(env_three, ''/a/index.ts''), (env_three, ''/b/index.ts''), (env_three, ''/c/index.ts'')]
        (new_Compiler ''/'' ''/out''))) = Inr () \<and>
   [b. BuildRebuild b \<leftarrow> events_since
      (compile_all [(env_three, ''/a/index.ts''), (env_three, ''/b/index.ts''), (env_three, ''/c/index.ts'')]
        (new_Compiler ''/'' ''/out''))
      (snd (rebuild env_three
        (compile_all [(env_three, ''/a/index.ts''), (env_three, ''/b/index.ts''), (env_three, ''/c/index.ts'')]
          (new_Compiler ''/'' ''/out''))))] = [0, 1, 2] \<and>
   [err. LogError err \<leftarrow> events_since
      (compile_all [(env_three, ''/a/index.ts''), (env_three, ''/b/index.ts''), (env_three, ''/c/index.ts'')]
        (new_Compiler ''/'' ''/out''))
      (snd (rebuild env_three
        (compile_all [(env_three, ''/a/index.ts''), (env_three, ''/b/index.ts''), (env_three, ''/c/index.ts'')]
          (new_Compiler ''/'' ''/out''))))] = [Error ''rebuild failed'']"
proof -
  let ?s = "compile_all
    [(env_three, ''/a/index.ts''), (env_three, ''/b/index.ts''), (env_three, ''/c/index.ts'')]
    (new_Compiler ''/'' ''/out'')"
  have b: "builds ?s = [0, 1, 2]"
    by code_simp
  have r: "build_rebuild env_three 0 = None"
    "build_rebuild env_three (Suc 0) = Some (Error ''rebuild failed'')"
    "build_rebuild env_three 2 = None"
    by (simp_all add: env_three_def)
  from rebuild_isolates_failures [of env_three ?s] show ?thesis
    by (simp add: b r del: compile_all.simps)
qed

subsection \<open>\<^verbatim>\<open>fileGroup\<close>\<close>

lemma obj_set_keyed:
  "obj_set (map (\<lambda>k. (k, d k)) ks) g (d g) =
     map (\<lambda>k. (k, d k)) (if g \<in> set ks then ks else ks @ [g])"
  by (induction ks) auto

lemma fromEntries_onto_keyed:
  "fromEntries_onto (map (\<lambda>k. (k, d k)) ks) (map (\<lambda>g. (g, d g)) G) =
     map (\<lambda>k. (k, d k)) (ks @ filter (\<lambda>g. g \<notin> set ks) (first_occurrences G))"
proof (induction G arbitrary: ks)
  case Nil
  show ?case by simp
next
  case (Cons g G)
  let ?ks' = "if g \<in> set ks then ks else ks @ [g]"
  have "fromEntries_onto (map (\<lambda>k. (k, d k)) ks) (map (\<lambda>g. (g, d g)) (g # G)) =
      fromEntries_onto (obj_set (map (\<lambda>k. (k, d k)) ks) g (d g)) (map (\<lambda>g. (g, d g)) G)"
    by simp
  also have "\<dots> = fromEntries_onto (map (\<lambda>k. (k, d k)) ?ks') (map (\<lambda>g. (g, d g)) G)"
    by (simp only: obj_set_keyed)
  also have "\<dots> = map (\<lambda>k. (k, d k)) (?ks' @ filter (\<lambda>g. g \<notin> set ?ks') (first_occurrences G))"
    by (rule Cons.IH)
  also have "?ks' @ filter (\<lambda>g. g \<notin> set ?ks') (first_occurrences G) =
      ks @ filter (\<lambda>x. x \<notin> set ks) (first_occurrences (g # G))"
  proof (cases "g \<in> set ks")
    case True
    then have "filter (\<lambda>x. x \<notin> set ks) (filter (\<lambda>y. y \<noteq> g) (first_occurrences G)) =
        filter (\<lambda>x. x \<notin> set ks) (first_occurrences G)"
      by (auto intro: filter_cong)
    with True show ?thesis
      by simp
  next
    case False
    then have "filter (\<lambda>x. x \<notin> set (ks @ [g])) (first_occurrences G) =
        filter (\<lambda>x. x \<notin> set ks) (filter (\<lambda>y. y \<noteq> g) (first_occurrences G))"
      by (auto intro: filter_cong)
    with False show ?thesis
      by simp
  qed
  finally show ?case .
qed

lemma set_first_occurrences: "set (first_occurrences xs) = set xs"
  by (induction xs) auto

lemma first_occurrences_distinct: "distinct xs \<Longrightarrow> first_occurrences xs = xs"
  by (induction xs) (auto simp: set_first_occurrences intro: filter_True)

lemma distinct_first_occurrences: "distinct (first_occurrences xs)"
  by (induction xs) (auto simp: set_first_occurrences)

text \<open>
  Claim C8. When \<^verbatim>\<open>groupMap\<close> has the file, \<^verbatim>\<open>fileGroup\<close> returns an object with exactly
  one property per member \<^verbatim>\<open>g\<close> of the group, of value \<^verbatim>\<open>destination(g)\<close>, in the order in
  which the members first occur in the group: for a group without repetitions, the
  order of the group itself.
\<close>

theorem fileGroup_lists_the_group:
  assumes "groupMap s file = Some G"
  shows "fileGroup s file = Inr (map (\<lambda>g. (g, destination s g)) (first_occurrences G)) \<and>
    set (first_occurrences G) = set G \<and>
    (distinct G \<longrightarrow> fileGroup s file = Inr (map (\<lambda>g. (g, destination s g)) G))"
proof -
  have "Object_fromEntries (map (\<lambda>g. (g, destination s g)) G) =
      map (\<lambda>g. (g, destination s g)) (first_occurrences G)"
    using fromEntries_onto_keyed [of "destination s" "[]" G]
    by (simp add: Object_fromEntries_def)
  with assms show ?thesis
    by (simp add: fileGroup_def set_first_occurrences first_occurrences_distinct)
qed

text \<open>The group of the project under \<^verbatim>\<open>/root\<close>, asked through its second file.\<close>

theorem fileGroup_lists_the_group_witness:
  "fileGroup (snd (compile env_root ''/root/src/a.ts'' (new_Compiler ''/root'' ''/out''))) ''/root/src/b.tsx'' =
     Inr [(''/root/src/a.ts'', ''/out/src/a.js''), (''/root/src/b.tsx'', ''/out/src/b.js'')]"
proof -
  let ?s = "snd (compile env_root ''/root/src/a.ts'' (new_Compiler ''/root'' ''/out''))"
  have g: "groupMap ?s ''/root/src/b.tsx'' = Some [''/root/src/a.ts'', ''/root/src/b.tsx'']"
    by code_simp
  have d: "destination ?s ''/root/src/a.ts'' = ''/out/src/a.js''"
    "destination ?s ''/root/src/b.tsx'' = ''/out/src/b.js''"
    by code_simp+
  from fileGroup_lists_the_group [OF g] show ?thesis
    by (simp add: d)
qed

subsection \<open>The extension pattern\<close>

text \<open>
  \<^verbatim>\<open>path.join\<close> keeps the end of its last argument: the last segment of a path that
  ends in \<^verbatim>\<open>.js\<close> is neither empty nor \<^verbatim>\<open>.\<close> nor \<^verbatim>\<open>..\<close>, so normalisation keeps it.
\<close>

lemma split_path_not_empty: "split_path u \<noteq> []"
  by (induction u) (auto split: list.split)

lemma split_path_append:
  "CHR ''/'' \<notin> set v \<Longrightarrow>
     split_path (u @ v) = butlast (split_path u) @ [last (split_path u) @ v]"
proof (induction u)
  case Nil
  then show ?case
    by (induction v) (auto split: list.split)
next
  case (Cons c u)
  then show ?case
    using split_path_not_empty [of u]
    by (cases "split_path u") (auto split: list.split)
qed

lemma normalizeString_last:
  "seg \<noteq> [] \<Longrightarrow> seg \<noteq> ''.'' \<Longrightarrow> seg \<noteq> ''..'' \<Longrightarrow>
     normalizeString allow res (segs @ [seg]) = normalizeString allow res segs @ [seg]"
  by (induction segs arbitrary: res) auto

lemma join_with_last: "suffix y (join_with sep (xs @ [y]))"
proof (induction xs)
  case Nil
  show ?case by simp
next
  case (Cons x xs)
  then show ?case
    by (cases xs) (auto simp: suffix_append)
qed

lemma normalized_keeps_js:
  "\<exists>q. join_with ''/'' (normalizeString allow [] (split_path (u @ ''.js''))) = q @ ''.js''"
proof -
  define segs where "segs = butlast (split_path u)"
  define seg where "seg = last (split_path u) @ ''.js''"
  have sp: "split_path (u @ ''.js'') = segs @ [seg]"
    unfolding segs_def seg_def by (rule split_path_append) simp
  have "seg \<noteq> []" "seg \<noteq> ''.''" "seg \<noteq> ''..''"
    by (auto simp: seg_def)
  then have "normalizeString allow [] (segs @ [seg]) = normalizeString allow [] segs @ [seg]"
    by (rule normalizeString_last)
  then have "suffix seg (join_with ''/'' (normalizeString allow [] (split_path (u @ ''.js''))))"
    by (simp only: sp join_with_last)
  then obtain r where "join_with ''/'' (normalizeString allow [] (split_path (u @ ''.js''))) = r @ seg"
    by (auto simp: suffix_def)
  then have "join_with ''/'' (normalizeString allow [] (split_path (u @ ''.js''))) =
      (r @ last (split_path u)) @ ''.js''"
    by (simp add: seg_def)
  then show ?thesis
    by (intro exI [of _ "r @ last (split_path u)"])
qed

lemma path_normalize_keeps_js: "suffix ''.js'' (path_normalize (u @ ''.js''))"
proof -
  obtain q where q: "join_with ''/''
      (normalizeString (hd (u @ ''.js'') \<noteq> CHR ''/'') [] (split_path (u @ ''.js''))) = q @ ''.js''"
    using normalized_keeps_js by blast
  show ?thesis
    by (simp add: path_normalize_def Let_def q suffix_def)
qed

lemma path_join_keeps_js: "suffix ''.js'' (path_join d (p @ ''.js''))"
proof (cases "d = []")
  case True
  then show ?thesis
    using path_normalize_keeps_js [of p] by (simp add: path_join_def)
next
  case False
  then show ?thesis
    using path_normalize_keeps_js [of "d @ ''/'' @ p"] by (simp add: path_join_def)
qed

text \<open>
  Claim C9 says that the tail of any file name ending in one arbitrary character
  followed by \<^verbatim>\<open>ts\<close> or \<^verbatim>\<open>tsx\<close> is rewritten. Two file names that end so and are not
  rewritten: in the first the character is a line feed, which the dot of the pattern
  does not match; in the second the removal of the workspace root, which comes first,
  leaves only \<^verbatim>\<open>ts\<close>.
\<close>

theorem tail_rewrite_counterexample:
  "destination (new_Compiler ''/root'' ''/out'') (''/root/a'' @ [CHR 0x0A] @ ''ts'') =
     ''/out/a'' @ [CHR 0x0A] @ ''ts'' \<and>
   destination (new_Compiler ''/root'' ''/out'') ''/rootts'' = ''/out/ts''"
  by code_simp

text \<open>
  Claim C9, amended. Take what is left of the file name once the first occurrence of
  \<^verbatim>\<open>workspaceRoot\<close> is removed. If that ends with one character other than a line
  terminator followed by \<^verbatim>\<open>ts\<close> or \<^verbatim>\<open>tsx\<close>, these last three or four characters are
  replaced by \<^verbatim>\<open>.js\<close>, whether or not the character is a dot; the result is joined to
  \<^verbatim>\<open>workDir\<close>, and the output path ends in \<^verbatim>\<open>.js\<close>. This is so in particular for a
  file name that starts with \<^verbatim>\<open>workspaceRoot\<close>.
\<close>

theorem tail_rewrite:
  assumes "\<not> line_terminator c" and "ext = ''ts'' \<or> ext = ''tsx''"
  shows "(str_replace (workspaceRoot s) [] filename = p @ c # ext \<longrightarrow>
            destination s filename = path_join (workDir s) (p @ ''.js'') \<and>
            suffix ''.js'' (destination s filename)) \<and>
         destination s (workspaceRoot s @ p @ c # ext) = path_join (workDir s) (p @ ''.js'') \<and>
         suffix ''.js'' (destination s (workspaceRoot s @ p @ c # ext))"
proof -
  have "replace_tsx (p @ c # ext) = p @ ''.js''"
    using assms replace_tsx_tail_ts [of c p] replace_tsx_tail_tsx [of c p] by auto
  then show ?thesis
    by (simp add: destination_def str_replace_prefix path_join_keeps_js)
qed

text \<open>The example of the claim: \<^verbatim>\<open>fonts\<close> becomes \<^verbatim>\<open>fo.js\<close>.\<close>

theorem tail_rewrite_witness:
  "destination (new_Compiler ''/root'' ''/out'') ''/root/assets/fonts'' = ''/out/assets/fo.js''"
proof -
  let ?s = "new_Compiler ''/root'' ''/out''"
  have h1: "\<not> line_terminator CHR ''n''"
    by (simp add: line_terminator_def)
  have h2: "''ts'' = ''ts'' \<or> ''ts'' = ''tsx''"
    by simp
  have roots: "workspaceRoot ?s = ''/root''" "workDir ?s = ''/out''"
    by (simp_all add: new_Compiler_def)
  have j: "path_join ''/out'' ''/assets/fo.js'' = ''/out/assets/fo.js''"
    by code_simp
  from tail_rewrite [OF h1 h2, of ?s _ "''/assets/fo''"] show ?thesis
    by (simp add: roots j)
qed

subsection \<open>\<^verbatim>\<open>invalidateBuildSet\<close>\<close>

lemma first_rejection_none:
  "first_rejection rs = None \<longleftrightarrow> (\<forall>r\<in>set rs. r = None)"
  by (induction rs rule: first_rejection.induct) auto

lemma first_rejection_some:
  "first_rejection rs = Some err \<Longrightarrow> Some err \<in> set rs"
  by (induction rs rule: first_rejection.induct) auto

text \<open>
  Claim C1 says that \<^verbatim>\<open>invalidateBuildSet\<close> empties the three dictionaries whether or
  not a disposal fails. After one \<^verbatim>\<open>compile\<close>: when every disposal succeeds,
  \<^verbatim>\<open>groupMap\<close> still has the entry of the file; when a disposal fails, the call fails
  and \<^verbatim>\<open>fileMap\<close> and \<^verbatim>\<open>tsConfigMap\<close> still have their entries.
\<close>

theorem invalidate_counterexample:
  "fst (invalidateBuildSet env_root
          (snd (compile env_root ''/root/src/a.ts'' (new_Compiler ''/root'' ''/out'')))) = Inr () \<and>
   groupMap (snd (invalidateBuildSet env_root
          (snd (compile env_root ''/root/src/a.ts'' (new_Compiler ''/root'' ''/out''))))) ''/root/src/a.ts'' =
     Some [''/root/src/a.ts'', ''/root/src/b.tsx''] \<and>
   fst (invalidateBuildSet env_failing
          (snd (compile env_root ''/root/src/a.ts'' (new_Compiler ''/root'' ''/out'')))) =
     Inl (Error ''dispose failed'') \<and>
   fileMap (snd (invalidateBuildSet env_failing
          (snd (compile env_root ''/root/src/a.ts'' (new_Compiler ''/root'' ''/out''))))) ''/root/src/a.ts'' = Some 0 \<and>
   tsConfigMap (snd (invalidateBuildSet env_failing
          (snd (compile env_root ''/root/src/a.ts'' (new_Compiler ''/root'' ''/out''))))) ''/root/tsconfig.json'' = Some 0"
  by code_simp

text \<open>
  Claim C1, amended. If every disposal succeeds, \<^verbatim>\<open>invalidateBuildSet\<close> has called
  \<^verbatim>\<open>dispose\<close> on every build of \<^verbatim>\<open>builds\<close>, once each, returns normally, and
  \<^verbatim>\<open>builds\<close>, \<^verbatim>\<open>fileMap\<close> and \<^verbatim>\<open>tsConfigMap\<close> are empty. If a disposal fails, the call
  fails with the error of a disposal that failed, and \<^verbatim>\<open>builds\<close> and the three
  dictionaries are as they were.
\<close>

theorem invalidate_clears_after_disposal:
  "((\<forall>b\<in>set (builds s). rebuild_dispose e b = None) \<longrightarrow>
      fst (invalidateBuildSet e s) = Inr () \<and>
      events_since s (snd (invalidateBuildSet e s)) = map RebuildDispose (builds s) \<and>
      builds (snd (invalidateBuildSet e s)) = [] \<and>
      fileMap (snd (invalidateBuildSet e s)) = Map.empty \<and>
      tsConfigMap (snd (invalidateBuildSet e s)) = Map.empty) \<and>
   ((\<exists>b\<in>set (builds s). rebuild_dispose e b \<noteq> None) \<longrightarrow>
      (\<exists>err. fst (invalidateBuildSet e s) = Inl err \<and>
         (\<exists>b\<in>set (builds s). rebuild_dispose e b = Some err)) \<and>
      builds (snd (invalidateBuildSet e s)) = builds s \<and>
      fileMap (snd (invalidateBuildSet e s)) = fileMap s \<and>
      tsConfigMap (snd (invalidateBuildSet e s)) = tsConfigMap s \<and>
      groupMap (snd (invalidateBuildSet e s)) = groupMap s)"
proof (cases "first_rejection (map (rebuild_dispose e) (builds s))")
  case None
  then have ok: "\<forall>b\<in>set (builds s). rebuild_dispose e b = None"
    by (simp add: first_rejection_none)
  show ?thesis
    using ok by (auto simp: invalidateBuildSet_def None events_since_def emit_fields)
next
  case (Some err)
  from first_rejection_some [OF Some]
  have failing: "\<exists>b\<in>set (builds s). rebuild_dispose e b = Some err"
    by auto
  have "fst (invalidateBuildSet e s) = Inl err"
    and "builds (snd (invalidateBuildSet e s)) = builds s"
    and "fileMap (snd (invalidateBuildSet e s)) = fileMap s"
    and "tsConfigMap (snd (invalidateBuildSet e s)) = tsConfigMap s"
    and "groupMap (snd (invalidateBuildSet e s)) = groupMap s"
    by (simp_all add: invalidateBuildSet_def Some emit_fields)
  with failing show ?thesis
    by auto
qed

text \<open>Both cases, after one \<^verbatim>\<open>compile\<close>.\<close>

theorem invalidate_clears_after_disposal_witness:
  "fst (invalidateBuildSet env_root
          (snd (compile env_root ''/root/src/a.ts'' (new_Compiler ''/root'' ''/out'')))) = Inr () \<and>
   events_since (snd (compile env_root ''/root/src/a.ts'' (new_Compiler ''/root'' ''/out'')))
     (snd (invalidateBuildSet env_root
          (snd (compile env_root ''/root/src/a.ts'' (new_Compiler ''/root'' ''/out''))))) = [RebuildDispose 0] \<and>
   fileMap (snd (invalidateBuildSet env_root
          (snd (compile env_root ''/root/src/a.ts'' (new_Compiler ''/root'' ''/out''))))) = Map.empty \<and>
   fst (invalidateBuildSet env_failing
          (snd (compile env_root ''/root/src/a.ts'' (new_Compiler ''/root'' ''/out'')))) =
     Inl (Error ''dispose failed'') \<and>
   fileMap (snd (invalidateBuildSet env_failing
          (snd (compile env_root ''/root/src/a.ts'' (new_Compiler ''/root'' ''/out''))))) =
     fileMap (snd (compile env_root ''/root/src/a.ts'' (new_Compiler ''/root'' ''/out'')))"
proof -
  let ?s = "snd (compile env_root ''/root/src/a.ts'' (new_Compiler ''/root'' ''/out''))"
  have b: "builds ?s = [0]"
    by code_simp
  have ok: "\<forall>b\<in>set (builds ?s). rebuild_dispose env_root b = None"
    by (simp add: env_root_def)
  have bad: "\<exists>b\<in>set (builds ?s). rebuild_dispose env_failing b \<noteq> None"
    by (simp add: b env_failing_def)
  have d: "rebuild_dispose env_failing 0 = Some (Error ''dispose failed'')"
    by (simp add: env_failing_def)
  from invalidate_clears_after_disposal [of ?s env_failing] bad
  obtain err where err: "fst (invalidateBuildSet env_failing ?s) = Inl err"
    and "\<exists>b\<in>set (builds ?s). rebuild_dispose env_failing b = Some err"
    and same: "fileMap (snd (invalidateBuildSet env_failing ?s)) = fileMap ?s"
    by blast
  then have "err = Error ''dispose failed''"
    by (simp add: b d)
  with err have failed: "fst (invalidateBuildSet env_failing ?s) = Inl (Error ''dispose failed'')"
    by (simp only:)
  from invalidate_clears_after_disposal [of ?s env_root] ok
  have "fst (invalidateBuildSet env_root ?s) = Inr ()"
    and "events_since ?s (snd (invalidateBuildSet env_root ?s)) = map RebuildDispose (builds ?s)"
    and "fileMap (snd (invalidateBuildSet env_root ?s)) = Map.empty"
    by blast+
  with failed same show ?thesis
    by (simp add: b)
qed

subsection \<open>The registry invariant\<close>

lemma rebuild_fields:
  "builds (snd (rebuild e s)) = builds s"
  "fileMap (snd (rebuild e s)) = fileMap s"
  "tsConfigMap (snd (rebuild e s)) = tsConfigMap s"
  "groupMap (snd (rebuild e s)) = groupMap s"
  "next_build (snd (rebuild e s)) = next_build s"
  by (simp_all add: rebuild_eq emit_fields)

lemma invalidateBuildSet_groupMap:
  "groupMap (snd (invalidateBuildSet e s)) = groupMap s"
  by (simp add: invalidateBuildSet_def emit_fields Let_def split: option.split)

lemma startBuilding_group_membership:
  "group_membership s \<Longrightarrow> group_membership (snd (startBuilding e f s))"
  by (rule startBuilding_cases [of s f e]) (auto simp: group_membership_def emit_fields)

lemma reachable_group_membership: "reachable s \<Longrightarrow> group_membership s"
proof (induction rule: reachable.induct)
  case (reachable_new root dir)
  show ?case
    by (simp add: group_membership_def new_Compiler_def)
next
  case (reachable_compile s e filename)
  then show ?case
    by (simp add: compile_state startBuilding_group_membership)
next
  case (reachable_rebuild s e)
  then show ?case
    by (simp add: group_membership_def rebuild_fields)
next
  case (reachable_invalidate s e)
  then show ?case
    by (simp add: group_membership_def invalidateBuildSet_groupMap)
qed

lemma registry_invariant_register:
  assumes inv: "registry_invariant s"
    and new: "\<forall>g\<in>set names. fileMap s g = None"
    and fm: "fileMap s' = (\<lambda>g. if g \<in> set names then Some b else fileMap s g)"
    and gm: "groupMap s' = (\<lambda>g. if g \<in> set names then Some names else groupMap s g)"
  shows "registry_invariant s'"
  unfolding registry_invariant_def
proof (intro allI impI)
  fix x G
  assume G: "groupMap s' x = Some G"
  show "x \<in> set G \<and> (\<forall>g\<in>set G. fileMap s' g \<noteq> None \<and> fileMap s' g = fileMap s' x)"
  proof (cases "x \<in> set names")
    case True
    with G gm have "G = names"
      by simp
    with True fm show ?thesis
      by simp
  next
    case False
    with G gm have Gx: "groupMap s x = Some G"
      by simp
    from inv Gx have x: "x \<in> set G"
      and all: "\<forall>g\<in>set G. fileMap s g \<noteq> None \<and> fileMap s g = fileMap s x"
      unfolding registry_invariant_def by blast+
    show ?thesis
    proof (intro conjI ballI)
      show "x \<in> set G"
        by (rule x)
    next
      fix g
      assume g: "g \<in> set G"
      with all have known: "fileMap s g \<noteq> None"
        by blast
      with new have "g \<notin> set names"
        by auto
      then have "fileMap s' g = fileMap s g"
        by (simp add: fm)
      with known show "fileMap s' g \<noteq> None"
        by simp
    next
      fix g
      assume g: "g \<in> set G"
      with all have known: "fileMap s g \<noteq> None" and same: "fileMap s g = fileMap s x"
        by blast+
      from known new have "g \<notin> set names"
        by auto
      then have "fileMap s' g = fileMap s g"
        by (simp add: fm)
      moreover have "fileMap s' x = fileMap s x"
        using False by (simp add: fm)
      ultimately show "fileMap s' g = fileMap s' x"
        using same by simp
    qed
  qed
qed

lemma registry_invariant_same:
  assumes "registry_invariant s" and "fileMap s' = fileMap s" and "groupMap s' = groupMap s"
  shows "registry_invariant s'"
proof -
  have "registry_invariant s' = registry_invariant s"
    unfolding registry_invariant_def by (simp only: assms(2,3))
  with assms(1) show ?thesis
    by (simp only:)
qed

lemma startBuilding_registry_invariant:
  assumes inv: "registry_invariant s" and apart: "keeps_apart e f s"
  shows "registry_invariant (snd (startBuilding e f s))"
proof (rule startBuilding_cases [of s f e])
  assume "startBuilding e f s = (Inr (), s)"
  with inv show ?thesis by simp
next
  fix err
  assume "startBuilding e f s = (Inl err, emit [FindConfig f] s)"
  then show ?thesis
    by (intro registry_invariant_same [OF inv]) (simp_all add: emit_fields)
next
  fix m c
  assume "startBuilding e f s = (Inr (), emit [FindConfig f] s)"
  then show ?thesis
    by (intro registry_invariant_same [OF inv]) (simp_all add: emit_fields)
next
  fix m c err
  assume "startBuilding e f s =
    (Inr (), emit [FindConfig f, ServiceBuild (platform_fileNames e c) m, LogError err] s)"
  then show ?thesis
    by (intro registry_invariant_same [OF inv]) (simp_all add: emit_fields)
next
  fix m c
  let ?names = "platform_fileNames e c"
  assume unknown: "fileMap s f = None" and g: "getTSConfig e f = Inr (m, c)"
    and fresh: "tsConfigMap s m = None"
    and sb: "startBuilding e f s =
      (Inr (),
       s\<lparr>builds := builds s @ [next_build s],
         fileMap := (\<lambda>g. if g \<in> set ?names then Some (next_build s) else fileMap s g),
         tsConfigMap := (tsConfigMap s)(m \<mapsto> next_build s),
         groupMap := (\<lambda>g. if g \<in> set ?names then Some ?names else groupMap s g),
         next_build := Suc (next_build s),
         trace := trace s @ [FindConfig f, ServiceBuild ?names m, LogDebug ''started build'']\<rparr>)"
  have new: "\<forall>g\<in>set ?names. fileMap s g = None"
    using apart unknown g fresh by (simp add: keeps_apart_def)
  show ?thesis
    by (rule registry_invariant_register [OF inv new, of _ "next_build s"]) (simp_all add: sb)
qed

lemma reachable_apart_registry_invariant: "reachable_apart s \<Longrightarrow> registry_invariant s"
proof (induction rule: reachable_apart.induct)
  case (apart_new root dir)
  show ?case
    by (simp add: registry_invariant_def new_Compiler_def)
next
  case (apart_compile s e filename)
  show ?case
    unfolding compile_state
    using apart_compile.IH apart_compile.hyps(2) by (rule startBuilding_registry_invariant)
next
  case (apart_rebuild s e)
  show ?case
    using apart_rebuild.IH by (rule registry_invariant_same) (simp_all add: rebuild_fields)
qed

lemma registry_invariantD:
  "registry_invariant s \<Longrightarrow> groupMap s f = Some G \<Longrightarrow> g \<in> set G \<Longrightarrow>
     fileMap s g \<noteq> None \<and> fileMap s g = fileMap s f"
  unfolding registry_invariant_def by blast

text \<open>
  Claim C2 says that the registry invariant holds in every reachable state. Two
  reachable states in which it fails: after \<^verbatim>\<open>compile\<close> and \<^verbatim>\<open>invalidateBuildSet\<close> the
  group of a file is still recorded while none of its members has a build; after the
  \<^verbatim>\<open>compile\<close> of two files whose projects share a member file, that member belongs to
  the second build while the group of the first file still lists it.
\<close>

theorem registry_invariant_counterexample:
  "reachable (snd (invalidateBuildSet env_root
       (snd (compile env_root ''/root/src/a.ts'' (new_Compiler ''/root'' ''/out''))))) \<and>
   \<not> registry_invariant (snd (invalidateBuildSet env_root
       (snd (compile env_root ''/root/src/a.ts'' (new_Compiler ''/root'' ''/out''))))) \<and>
   reachable (snd (compile env_nested ''/root/pkg/c.ts''
       (snd (compile env_nested ''/root/a.ts'' (new_Compiler ''/root'' ''/out''))))) \<and>
   \<not> registry_invariant (snd (compile env_nested ''/root/pkg/c.ts''
       (snd (compile env_nested ''/root/a.ts'' (new_Compiler ''/root'' ''/out'')))))"
proof (intro conjI)
  let ?s = "snd (invalidateBuildSet env_root
       (snd (compile env_root ''/root/src/a.ts'' (new_Compiler ''/root'' ''/out''))))"
  show "reachable ?s"
    by (intro reachable.intros)
  have g: "groupMap ?s ''/root/src/a.ts'' = Some [''/root/src/a.ts'', ''/root/src/b.tsx'']"
    by code_simp
  have f: "fileMap ?s ''/root/src/b.tsx'' = None"
    by code_simp
  show "\<not> registry_invariant ?s"
  proof
    assume "registry_invariant ?s"
    then have "fileMap ?s ''/root/src/b.tsx'' \<noteq> None"
      using g by (rule registry_invariantD [THEN conjunct1]) simp
    with f show False
      by (simp only:)
  qed
next
  let ?t = "snd (compile env_nested ''/root/pkg/c.ts''
       (snd (compile env_nested ''/root/a.ts'' (new_Compiler ''/root'' ''/out''))))"
  show "reachable ?t"
    by (intro reachable.intros)
  have g: "groupMap ?t ''/root/a.ts'' = Some [''/root/a.ts'', ''/root/pkg/b.ts'']"
    by code_simp
  have fa: "fileMap ?t ''/root/a.ts'' = Some 0"
    by code_simp
  have fb: "fileMap ?t ''/root/pkg/b.ts'' = Some 1"
    by code_simp
  show "\<not> registry_invariant ?t"
  proof
    assume "registry_invariant ?t"
    then have "fileMap ?t ''/root/pkg/b.ts'' = fileMap ?t ''/root/a.ts''"
      using g by (rule registry_invariantD [THEN conjunct2]) simp
    then show False
      unfolding fa fb by simp
  qed
qed

text \<open>
  Claim C2, amended. In every state reachable by \<^verbatim>\<open>compile\<close>, \<^verbatim>\<open>rebuild\<close> and
  \<^verbatim>\<open>invalidateBuildSet\<close>, every file with an entry in \<^verbatim>\<open>groupMap\<close> is a member of its
  group. The whole invariant (every member of the group has a build, the same as the
  file) holds in every state reached by \<^verbatim>\<open>compile\<close> and \<^verbatim>\<open>rebuild\<close> calls in which no
  project is built that has a member file belonging to a build already.
\<close>

theorem registry_invariant_when_apart:
  "(reachable s \<longrightarrow> group_membership s) \<and> (reachable_apart s \<longrightarrow> registry_invariant s)"
  using reachable_group_membership reachable_apart_registry_invariant by blast

text \<open>The state after one \<^verbatim>\<open>compile\<close> is reachable in both senses.\<close>

theorem registry_invariant_when_apart_witness:
  "reachable (snd (compile env_root ''/root/src/a.ts'' (new_Compiler ''/root'' ''/out''))) \<and>
   group_membership (snd (compile env_root ''/root/src/a.ts'' (new_Compiler ''/root'' ''/out''))) \<and>
   reachable_apart (snd (compile env_root ''/root/src/a.ts'' (new_Compiler ''/root'' ''/out''))) \<and>
   registry_invariant (snd (compile env_root ''/root/src/a.ts'' (new_Compiler ''/root'' ''/out'')))"
proof -
  let ?s = "snd (compile env_root ''/root/src/a.ts'' (new_Compiler ''/root'' ''/out''))"
  have r: "reachable ?s"
    by (intro reachable.intros)
  have "keeps_apart env_root ''/root/src/a.ts'' (new_Compiler ''/root'' ''/out'')"
    by (simp add: keeps_apart_def new_Compiler_def split: sum.split)
  then have a: "reachable_apart ?s"
    by (intro reachable_apart.intros)
  from registry_invariant_when_apart [of ?s] r a show ?thesis
    by simp
qed

subsection \<open>One build per project\<close>

lemma reachable_builds_numbered: "reachable s \<Longrightarrow> \<forall>b\<in>set (builds s). b < next_build s"
proof (induction rule: reachable.induct)
  case (reachable_new root dir)
  show ?case
    by (simp add: new_Compiler_def)
next
  case (reachable_compile s e filename)
  then show ?case
    unfolding compile_state
    by (rule_tac startBuilding_cases [of s filename e]) (auto simp: emit_fields less_Suc_eq)
next
  case (reachable_rebuild s e)
  then show ?case
    by (simp add: rebuild_fields)
next
  case (reachable_invalidate s e)
  then show ?case
    by (auto simp: invalidateBuildSet_def emit_fields Let_def split: option.split)
qed

lemma build_calls_emit:
  "build_calls m (emit es s) = build_calls m s + length (filter (is_build_of m) es)"
  by (simp add: build_calls_def emit_fields)

lemma startBuilding_keeps_project:
  assumes numbered: "\<forall>x\<in>set (builds s). x < next_build s"
    and live: "tsConfigMap s m = Some b" and b: "b < next_build s"
  shows "(\<forall>x\<in>set (builds (snd (startBuilding e f s))). x < next_build (snd (startBuilding e f s))) \<and>
    tsConfigMap (snd (startBuilding e f s)) m = Some b \<and>
    b < next_build (snd (startBuilding e f s)) \<and>
    build_calls m (snd (startBuilding e f s)) = build_calls m s \<and>
    live_builds m (snd (startBuilding e f s)) = live_builds m s"
proof (rule startBuilding_cases [of s f e])
  assume "startBuilding e f s = (Inr (), s)"
  with numbered live b show ?thesis
    by simp
next
  fix err
  assume "startBuilding e f s = (Inl err, emit [FindConfig f] s)"
  with numbered live b show ?thesis
    by (simp add: emit_fields build_calls_emit live_builds_def)
next
  fix m' c
  assume "startBuilding e f s = (Inr (), emit [FindConfig f] s)"
  with numbered live b show ?thesis
    by (simp add: emit_fields build_calls_emit live_builds_def)
next
  fix m' c err
  assume "tsConfigMap s m' = None"
    and "startBuilding e f s =
      (Inr (), emit [FindConfig f, ServiceBuild (platform_fileNames e c) m', LogError err] s)"
  moreover from this live have "m' \<noteq> m"
    by auto
  ultimately show ?thesis
    using numbered live b by (simp add: emit_fields build_calls_emit live_builds_def)
next
  fix m' c
  let ?names = "platform_fileNames e c"
  assume fresh: "tsConfigMap s m' = None"
    and sb: "startBuilding e f s =
      (Inr (),
       s\<lparr>builds := builds s @ [next_build s],
         fileMap := (\<lambda>g. if g \<in> set ?names then Some (next_build s) else fileMap s g),
         tsConfigMap := (tsConfigMap s)(m' \<mapsto> next_build s),
         groupMap := (\<lambda>g. if g \<in> set ?names then Some ?names else groupMap s g),
         next_build := Suc (next_build s),
         trace := trace s @ [FindConfig f, ServiceBuild ?names m', LogDebug ''started build'']\<rparr>)"
  from fresh live have other: "m' \<noteq> m"
    by auto
  show ?thesis
    using numbered other live b
    by (auto simp: sb build_calls_def live_builds_def less_Suc_eq)
qed

lemma compile_all_keeps_project:
  assumes "\<forall>x\<in>set (builds s). x < next_build s"
    and "tsConfigMap s m = Some b" and "b < next_build s"
  shows "build_calls m (compile_all calls s) = build_calls m s \<and>
    live_builds m (compile_all calls s) = live_builds m s"
  using assms
proof (induction calls arbitrary: s)
  case Nil
  show ?case
    by simp
next
  case (Cons call calls)
  obtain e f where call: "call = (e, f)"
    by (cases call)
  let ?s' = "snd (startBuilding e f s)"
  from startBuilding_keeps_project [OF Cons.prems, of e f]
  have step: "\<forall>x\<in>set (builds ?s'). x < next_build ?s'" "tsConfigMap ?s' m = Some b"
    "b < next_build ?s'" "build_calls m ?s' = build_calls m s" "live_builds m ?s' = live_builds m s"
    by blast+
  from Cons.IH [OF step(1-3)] step(4,5) show ?case
    by (simp add: call compile_state)
qed

text \<open>
  Claim C3 says that repeated \<^verbatim>\<open>compile\<close> calls for a project make exactly one
  \<^verbatim>\<open>service.build\<close> call and leave exactly one build for it. With a service that
  fails, two calls for the same file make two \<^verbatim>\<open>service.build\<close> calls and leave no
  build. And a file that another project has registered never has its own project
  built: its config resolves to \<^verbatim>\<open>/root/pkg/tsconfig.json\<close>, for which there is no
  \<^verbatim>\<open>service.build\<close> call and no build.
\<close>

theorem one_build_per_project_counterexample:
  "build_calls ''/root/tsconfig.json''
     (compile_all [(env_failing, ''/root/src/a.ts''), (env_failing, ''/root/src/a.ts'')]
        (new_Compiler ''/root'' ''/out'')) = 2 \<and>
   live_builds ''/root/tsconfig.json''
     (compile_all [(env_failing, ''/root/src/a.ts''), (env_failing, ''/root/src/a.ts'')]
        (new_Compiler ''/root'' ''/out'')) = [] \<and>
   getTSConfig env_nested ''/root/pkg/b.ts'' =
     Inr (''/root/pkg/tsconfig.json'',
          \<lparr>errors = [], fileNames = [''/root/pkg/b.ts'', ''/root/pkg/c.ts'']\<rparr>) \<and>
   build_calls ''/root/pkg/tsconfig.json''
     (compile_all [(env_nested, ''/root/a.ts''), (env_nested, ''/root/pkg/b.ts''),
                   (env_nested, ''/root/pkg/b.ts'')]
        (new_Compiler ''/root'' ''/out'')) = 0 \<and>
   live_builds ''/root/pkg/tsconfig.json''
     (compile_all [(env_nested, ''/root/a.ts''), (env_nested, ''/root/pkg/b.ts''),
                   (env_nested, ''/root/pkg/b.ts'')]
        (new_Compiler ''/root'' ''/out'')) = []"
  by code_simp

text \<open>
  Claim C3, amended. In a reachable state, let \<^verbatim>\<open>compile\<close> be called for a file that is
  not in \<^verbatim>\<open>fileMap\<close> and whose \<^verbatim>\<open>tsconfig.json\<close> has no build, and let \<^verbatim>\<open>service.build\<close>
  succeed. Then after any further sequence of \<^verbatim>\<open>compile\<close> calls (for the same file,
  for files of the same project, for any others) exactly one \<^verbatim>\<open>service.build\<close> call
  has been added for that \<^verbatim>\<open>tsconfig.json\<close>, and exactly one build of \<^verbatim>\<open>builds\<close> is
  registered for it.
\<close>

theorem one_build_per_project:
  assumes "reachable s" and "fileMap s file = None"
    and "getTSConfig e file = Inr (tsConfigFile, tsConfig)"
    and "tsConfigMap s tsConfigFile = None"
    and "service_build e (platform_fileNames e tsConfig) tsConfigFile = None"
  shows "build_calls tsConfigFile (compile_all calls (snd (compile e file s))) =
      build_calls tsConfigFile s + 1 \<and>
    live_builds tsConfigFile (compile_all calls (snd (compile e file s))) = [next_build s]"
proof -
  let ?s' = "snd (compile e file s)"
  note numbered = reachable_builds_numbered [OF assms(1)]
  have s': "?s' = s\<lparr>builds := builds s @ [next_build s],
         fileMap := (\<lambda>g. if g \<in> set (platform_fileNames e tsConfig) then Some (next_build s) else fileMap s g),
         tsConfigMap := (tsConfigMap s)(tsConfigFile \<mapsto> next_build s),
         groupMap := (\<lambda>g. if g \<in> set (platform_fileNames e tsConfig) then Some (platform_fileNames e tsConfig) else groupMap s g),
         next_build := Suc (next_build s),
         trace := trace s @ [FindConfig file, ServiceBuild (platform_fileNames e tsConfig) tsConfigFile, LogDebug ''started build'']\<rparr>"
    unfolding compile_state startBuilding_success [OF assms(2-5)] by simp
  have n': "\<forall>x\<in>set (builds ?s'). x < next_build ?s'"
    using numbered by (auto simp: s' less_Suc_eq)
  have t': "tsConfigMap ?s' tsConfigFile = Some (next_build s)"
    by (simp add: s')
  have b': "next_build s < next_build ?s'"
    by (simp add: s')
  have calls': "build_calls tsConfigFile ?s' = build_calls tsConfigFile s + 1"
    by (simp add: s' build_calls_def)
  have "filter (\<lambda>b. next_build s = b) (builds s) = []"
    using numbered by (auto simp: filter_empty_conv)
  then have live': "live_builds tsConfigFile ?s' = [next_build s]"
    by (simp add: s' live_builds_def)
  from compile_all_keeps_project [OF n' t' b', of calls] calls' live' show ?thesis
    by simp
qed

text \<open>The same file again, then the other file of the project.\<close>

theorem one_build_per_project_witness:
  "build_calls ''/root/tsconfig.json''
     (compile_all [(env_root, ''/root/src/a.ts''), (env_root, ''/root/src/b.tsx'')]
        (snd (compile env_root ''/root/src/a.ts'' (new_Compiler ''/root'' ''/out'')))) = 1 \<and>
   live_builds ''/root/tsconfig.json''
     (compile_all [(env_root, ''/root/src/a.ts''), (env_root, ''/root/src/b.tsx'')]
        (snd (compile env_root ''/root/src/a.ts'' (new_Compiler ''/root'' ''/out'')))) = [0]"
proof -
  let ?s = "new_Compiler ''/root'' ''/out''"
  let ?c = "\<lparr>errors = [], fileNames = [''/root/src/a.ts'', ''/root/src/b.tsx'']\<rparr>"
  have h0: "reachable ?s"
    by (rule reachable_new)
  have h1: "fileMap ?s ''/root/src/a.ts'' = None"
    by (simp add: new_Compiler_def)
  have h2: "getTSConfig env_root ''/root/src/a.ts'' = Inr (''/root/tsconfig.json'', ?c)"
    by (simp add: getTSConfig_def env_root_def)
  have h3: "tsConfigMap ?s ''/root/tsconfig.json'' = None"
    by (simp add: new_Compiler_def)
  have h4: "service_build env_root (platform_fileNames env_root ?c) ''/root/tsconfig.json'' = None"
    by (simp add: env_root_def)
  have z: "build_calls ''/root/tsconfig.json'' ?s = 0" "next_build ?s = 0"
    by (simp_all add: build_calls_def new_Compiler_def)
  from one_build_per_project [OF h0 h1 h2 h3 h4,
      of "[(env_root, ''/root/src/a.ts''), (env_root, ''/root/src/b.tsx'')]"]
  show ?thesis
    by (simp add: z del: compile_all.simps)
qed

end
